theory Spec2Isabelle
  imports Main "HOL-Library.Word"
begin

unbundle bit_operations_syntax

section \<open>Numbers, words and the state array\<close>

text \<open>
  The generator of \<^verbatim>\<open>src/index.ts\<close> computes on JavaScript numbers. The embedding
  covers the integer-valued numbers: a number is an \<^typ>\<open>int\<close>, the operands and results
  of the bitwise operators are 32-bit words (\<^verbatim>\<open>ToInt32\<close> and \<^verbatim>\<open>ToUint32\<close> of an integer
  are both \<^term>\<open>word_of_int\<close>, read back with \<^term>\<open>sint\<close> and \<^term>\<open>uint\<close>), and \<^verbatim>\<open>+\<close>, \<^verbatim>\<open>-\<close>
  and \<^verbatim>\<open>*\<close> are the operations of \<^typ>\<open>int\<close>, which is what the double arithmetic computes
  as long as every intermediate value stays below \<^verbatim>\<open>2^53\<close> in magnitude.

  The state vector is a JavaScript array used as a property map: \<^verbatim>\<open>new Array(n)\<close> has no
  element at all, a read of an absent index gives \<^verbatim>\<open>undefined\<close>, and a write at any
  index stores there. Every read of the state vector in the source is the operand of a
  bitwise operator, where \<^verbatim>\<open>undefined\<close> counts as 0; the stored values are kept as
  bit patterns.
\<close>

type_synonym u32 = "32 word"

type_synonym js_array = "int \<Rightarrow> u32 option"

definition rd :: "js_array \<Rightarrow> int \<Rightarrow> u32" where
  "rd v i = (case v i of None \<Rightarrow> 0 | Some w \<Rightarrow> w)"

definition STATE_LENGTH :: int where "STATE_LENGTH = 624"
definition STATE_PERIOD :: int where "STATE_PERIOD = 397"
definition MATRIX_A :: int where "MATRIX_A = 0x9908B0DF"
definition UPPER_MASK :: int where "UPPER_MASK = 0x80000000"
definition LOWER_MASK :: int where "LOWER_MASK = 0x7FFFFFFF"
definition TEMPERING_MASK_1 :: u32 where "TEMPERING_MASK_1 = 0x9D2C5680"
definition TEMPERING_MASK_2 :: u32 where "TEMPERING_MASK_2 = 0xEFC60000"
definition MAGIC_SEED :: int where "MAGIC_SEED = 19650218"

section \<open>The class\<close>

record MT19937Parameters =
  stateLength :: "int option"
  statePeriod :: "int option"
  matrixA :: "int option"
  upperMask :: "int option"
  lowerMask :: "int option"
  autoSeeder :: "(unit \<Rightarrow> int) option"

datatype seed = SeedNumber int | SeedArray "int list"

record MT19937 =
  mt_N :: int
  mt_M :: int
  mt_MATRIX_A :: int
  mt_UPPER_MASK :: int
  mt_LOWER_MASK :: int
  mt_seed :: "seed option"
  mt_stateVector :: js_array
  mt_stateIndex :: int

definition get_seed :: "MT19937 \<Rightarrow> seed option" where
  "get_seed g = mt_seed g"

definition get_stateLength :: "MT19937 \<Rightarrow> int" where
  "get_stateLength g = mt_N g"

definition get_statePeriod :: "MT19937 \<Rightarrow> int" where
  "get_statePeriod g = mt_M g"

definition get_matrixA :: "MT19937 \<Rightarrow> int" where
  "get_matrixA g = mt_MATRIX_A g"

definition get_upperMask :: "MT19937 \<Rightarrow> int" where
  "get_upperMask g = mt_UPPER_MASK g"

definition get_lowerMask :: "MT19937 \<Rightarrow> int" where
  "get_lowerMask g = mt_LOWER_MASK g"

section \<open>Scalar seeding\<close>

text \<open>
  The number \<^verbatim>\<open>((((s & 0xFFFF0000) >>> 16) * c) << 16) + (s & 0x0000FFFF) * c\<close>: the
  two products are exact, the left shift works on the \<^verbatim>\<open>ToInt32\<close> of the first one and
  gives a signed 32-bit value, and the sum is exact.
\<close>

definition mulSplit16 :: "int \<Rightarrow> u32 \<Rightarrow> int" where
  "mulSplit16 c s =
     sint (push_bit 16 (word_of_int (uint (drop_bit 16 (s AND 0xFFFF0000)) * c) :: u32))
     + uint (s AND 0x0000FFFF) * c"

text \<open>
  The loop of \<^verbatim>\<open>_initWithNumber\<close>, on the state vector and \<^verbatim>\<open>this._stateIndex\<close>, which
  is its loop counter.
\<close>

function initWithNumber_loop :: "int \<Rightarrow> js_array \<Rightarrow> int \<Rightarrow> js_array \<times> int" where
  "initWithNumber_loop n v idx =
     (if idx < n then
        (let s = rd v (idx - 1) XOR drop_bit 30 (rd v (idx - 1));
             v' = v(idx := Some (word_of_int (mulSplit16 1812433253 s + idx)))
         in initWithNumber_loop n v' (idx + 1))
      else (v, idx))"
  by pat_completeness auto
termination
  by (relation "measure (\<lambda>(n, v, idx). nat (n - idx))") auto

declare initWithNumber_loop.simps [simp del]

definition initWithNumber :: "MT19937 \<Rightarrow> int \<Rightarrow> MT19937" where
  "initWithNumber g seed =
     (let v0 = (mt_stateVector g)(0 := Some (word_of_int seed));
          (v, idx) = initWithNumber_loop (mt_N g) v0 1
      in g\<lparr>mt_stateVector := v, mt_stateIndex := idx\<rparr>)"

section \<open>Array seeding\<close>

text \<open>\<^verbatim>\<open>initKey[j]\<close>: \<^verbatim>\<open>undefined\<close> outside the array.\<close>

definition js_index :: "int list \<Rightarrow> int \<Rightarrow> int option" where
  "js_index xs j = (if 0 \<le> j \<and> j < int (length xs) then Some (xs ! nat j) else None)"

text \<open>
  One pass of the first loop of \<^verbatim>\<open>_initWithArray\<close> on \<^verbatim>\<open>(stateVector, i, j)\<close>. With
  \<^verbatim>\<open>initKey[j]\<close> undefined the sum is \<^verbatim>\<open>NaN\<close>, which \<^verbatim>\<open>>>>= 0\<close> turns into 0.
\<close>

definition mix_step :: "int \<Rightarrow> int list \<Rightarrow> js_array \<times> int \<times> int \<Rightarrow> js_array \<times> int \<times> int" where
  "mix_step n initKey st =
     (case st of (v, i, j) \<Rightarrow>
       (let s = rd v (i - 1) XOR drop_bit 30 (rd v (i - 1));
            w = (case js_index initKey j of
                   None \<Rightarrow> 0
                 | Some kj \<Rightarrow>
                     word_of_int (sint (rd v i XOR word_of_int (mulSplit16 1664525 s)) + kj + j));
            v1 = v(i := Some w);
            i1 = i + 1;
            j1 = j + 1;
            v2 = (if i1 \<ge> n then v1(0 := v1 (n - 1)) else v1);
            i2 = (if i1 \<ge> n then 1 else i1);
            j2 = (if j1 \<ge> int (length initKey) then 0 else j1)
        in (v2, i2, j2)))"

text \<open>
  \<^verbatim>\<open>for (; k; k--)\<close> stops when \<^verbatim>\<open>k\<close> is 0 and, started below 0, never does: the two
  loops are partial functions, \<^term>\<open>None\<close> standing for a loop that does not return.
\<close>

partial_function (option) mix_loop ::
  "int \<Rightarrow> int list \<Rightarrow> js_array \<times> int \<times> int \<Rightarrow> int \<Rightarrow> (js_array \<times> int \<times> int) option" where
  "mix_loop n initKey st k =
     (if k \<noteq> 0 then mix_loop n initKey (mix_step n initKey st) (k - 1) else Some st)"

declare mix_loop.simps [code]

text \<open>One pass of the second loop of \<^verbatim>\<open>_initWithArray\<close> on \<^verbatim>\<open>(stateVector, i)\<close>.\<close>

definition decor_step :: "int \<Rightarrow> js_array \<times> int \<Rightarrow> js_array \<times> int" where
  "decor_step n st =
     (case st of (v, i) \<Rightarrow>
       (let s = rd v (i - 1) XOR drop_bit 30 (rd v (i - 1));
            w = word_of_int (sint (rd v i XOR word_of_int (mulSplit16 1566083941 s)) - i);
            v1 = v(i := Some w);
            i1 = i + 1;
            v2 = (if i1 \<ge> n then v1(0 := v1 (n - 1)) else v1);
            i2 = (if i1 \<ge> n then 1 else i1)
        in (v2, i2)))"

partial_function (option) decor_loop ::
  "int \<Rightarrow> js_array \<times> int \<Rightarrow> int \<Rightarrow> (js_array \<times> int) option" where
  "decor_loop n st k =
     (if k \<noteq> 0 then decor_loop n (decor_step n st) (k - 1) else Some st)"

declare decor_loop.simps [code]

definition initWithArray :: "MT19937 \<Rightarrow> int list \<Rightarrow> MT19937 option" where
  "initWithArray g initKey =
     (let k = (if mt_N g > int (length initKey) then mt_N g else int (length initKey));
          g1 = initWithNumber g MAGIC_SEED
      in case mix_loop (mt_N g) initKey (mt_stateVector g1, 1, 0) k of
           None \<Rightarrow> None
         | Some (v, i, j) \<Rightarrow>
             (case decor_loop (mt_N g) (v, i) (mt_N g - 1) of
                None \<Rightarrow> None
              | Some (v', i') \<Rightarrow> Some (g1\<lparr>mt_stateVector := v'(0 := Some 0x80000000)\<rparr>)))"

definition init :: "MT19937 \<Rightarrow> seed \<Rightarrow> MT19937 option" where
  "init g seed =
     (let g' = g\<lparr>mt_seed := Some seed\<rparr>
      in case seed of
           SeedArray initKey \<Rightarrow> initWithArray g' initKey
         | SeedNumber s \<Rightarrow> Some (initWithNumber g' s))"

definition set_seed :: "MT19937 \<Rightarrow> seed \<Rightarrow> MT19937 option" where
  "set_seed g seed = init g seed"

section \<open>Construction\<close>

text \<open>
  The values the constructor can be called with. An object literal of configuration
  options is \<open>Obj\<close>; an array is an object too, one that has none of the option names.
\<close>

datatype arg = Undefined | Null | Num int | Arr "int list" | Obj MT19937Parameters

datatype error = RangeError

definition no_options :: MT19937Parameters where
  "no_options = \<lparr>stateLength = None, statePeriod = None, matrixA = None,
                 upperMask = None, lowerMask = None, autoSeeder = None\<rparr>"

text \<open>\<^verbatim>\<open>typeof a === 'number' || Array.isArray(a)\<close>, with the seed it gives.\<close>

definition number_or_array :: "arg \<Rightarrow> seed option" where
  "number_or_array a =
     (case a of Num s \<Rightarrow> Some (SeedNumber s) | Arr ks \<Rightarrow> Some (SeedArray ks) | _ \<Rightarrow> None)"

text \<open>\<^verbatim>\<open>a !== null && typeof a === 'object'\<close>, with the options read from it.\<close>

definition non_null_object :: "arg \<Rightarrow> MT19937Parameters option" where
  "non_null_object a =
     (case a of Obj p \<Rightarrow> Some p | Arr ks \<Rightarrow> Some no_options | _ \<Rightarrow> None)"

text \<open>\<^verbatim>\<open>parameters?.field ?? dflt\<close>\<close>

definition option_or :: "MT19937Parameters option \<Rightarrow> (MT19937Parameters \<Rightarrow> 'a option) \<Rightarrow> 'a \<Rightarrow> 'a" where
  "option_or parameters field dflt =
     (case parameters of
        None \<Rightarrow> dflt
      | Some p \<Rightarrow> (case field p of None \<Rightarrow> dflt | Some x \<Rightarrow> x))"

text \<open>
  The constructor. \<open>ambient\<close> is the number the default auto seeder
  \<^verbatim>\<open>Math.floor(Math.random() * new Date().getTime())\<close> gives at this call.
  \<^verbatim>\<open>new Array(n)\<close> throws a \<^verbatim>\<open>RangeError\<close> unless \<open>n\<close> is an array length.
  The outer \<open>option\<close> is \<^term>\<open>None\<close> when \<^verbatim>\<open>_init\<close> does not return.
\<close>

definition MT19937_new :: "arg \<Rightarrow> arg \<Rightarrow> int \<Rightarrow> (error + MT19937) option" where
  "MT19937_new arg1 arg2 ambient =
     (let seed0 = (case arg1 of Undefined \<Rightarrow> None | _ \<Rightarrow> number_or_array arg1);
          parameters =
            (case arg1 of
               Undefined \<Rightarrow> None
             | _ \<Rightarrow> (case non_null_object arg1 of
                       Some p \<Rightarrow> Some p
                     | None \<Rightarrow> non_null_object arg2));
          seed =
            (case seed0 of
               Some s \<Rightarrow> s
             | None \<Rightarrow>
                 SeedNumber (case parameters of
                               None \<Rightarrow> ambient
                             | Some p \<Rightarrow> (case autoSeeder p of
                                           Some f \<Rightarrow> f ()
                                         | None \<Rightarrow> ambient)));
          n = option_or parameters stateLength STATE_LENGTH;
          m = option_or parameters statePeriod STATE_PERIOD;
          a = option_or parameters matrixA MATRIX_A;
          u = option_or parameters upperMask UPPER_MASK;
          l = option_or parameters lowerMask LOWER_MASK
      in if n < 0 \<or> 2 ^ 32 \<le> n then Some (Inl RangeError)
         else map_option Inr
                (init \<lparr>mt_N = n, mt_M = m, mt_MATRIX_A = a, mt_UPPER_MASK = u,
                       mt_LOWER_MASK = l, mt_seed = None, mt_stateVector = (\<lambda>i. None),
                       mt_stateIndex = n + 1\<rparr> seed))"

section \<open>Generation\<close>

text \<open>\<^verbatim>\<open>magic[y & 0x1]\<close> with \<^verbatim>\<open>magic = [0, this._MATRIX_A]\<close>, as an operand of \<^verbatim>\<open>^\<close>.\<close>

definition magic :: "int \<Rightarrow> u32 \<Rightarrow> u32" where
  "magic a y = (if y AND 1 = 0 then 0 else word_of_int a)"

text \<open>
  The assignment the three parts of the regeneration share: with \<open>y\<close> mixed from the
  words at \<open>kk\<close> and \<open>nxt\<close>, the word at \<open>kk\<close> becomes the word at \<open>src\<close>, xor
  \<^verbatim>\<open>y >>> 1\<close>, xor the magic word.
\<close>

definition twist_at :: "MT19937 \<Rightarrow> js_array \<Rightarrow> int \<Rightarrow> int \<Rightarrow> int \<Rightarrow> js_array" where
  "twist_at g v kk nxt src =
     (let y = (rd v kk AND word_of_int (mt_UPPER_MASK g)) OR (rd v nxt AND word_of_int (mt_LOWER_MASK g))
      in v(kk := Some (rd v src XOR drop_bit 1 y XOR magic (mt_MATRIX_A g) y)))"

function twist_loop1 :: "MT19937 \<Rightarrow> js_array \<Rightarrow> int \<Rightarrow> js_array \<times> int" where
  "twist_loop1 g v kk =
     (if kk < mt_N g - mt_M g
      then twist_loop1 g (twist_at g v kk (kk + 1) (kk + mt_M g)) (kk + 1)
      else (v, kk))"
  by pat_completeness auto
termination
  by (relation "measure (\<lambda>(g, v, kk). nat (mt_N g - mt_M g - kk))") auto

declare twist_loop1.simps [simp del]

function twist_loop2 :: "MT19937 \<Rightarrow> js_array \<Rightarrow> int \<Rightarrow> js_array \<times> int" where
  "twist_loop2 g v kk =
     (if kk < mt_N g - 1
      then twist_loop2 g (twist_at g v kk (kk + 1) (kk + (mt_M g - mt_N g))) (kk + 1)
      else (v, kk))"
  by pat_completeness auto
termination
  by (relation "measure (\<lambda>(g, v, kk). nat (mt_N g - 1 - kk))") auto

declare twist_loop2.simps [simp del]

text \<open>The body of \<^verbatim>\<open>if (this._stateIndex >= this._N)\<close> in \<^verbatim>\<open>randomInt32\<close>.\<close>

definition regenerate :: "MT19937 \<Rightarrow> MT19937" where
  "regenerate g =
     (let (v1, kk1) = twist_loop1 g (mt_stateVector g) 0;
          (v2, kk2) = twist_loop2 g v1 kk1;
          v3 = twist_at g v2 (mt_N g - 1) 0 (mt_M g - 1)
      in g\<lparr>mt_stateVector := v3, mt_stateIndex := 0\<rparr>)"

definition tempering :: "u32 \<Rightarrow> u32" where
  "tempering y0 =
     (let y1 = y0 XOR drop_bit 11 y0;
          y2 = y1 XOR (push_bit 7 y1 AND TEMPERING_MASK_1);
          y3 = y2 XOR (push_bit 15 y2 AND TEMPERING_MASK_2);
          y4 = y3 XOR drop_bit 18 y3
      in y4)"

definition randomInt32 :: "MT19937 \<Rightarrow> int \<times> MT19937" where
  "randomInt32 g =
     (let g1 = (if mt_stateIndex g \<ge> mt_N g then regenerate g else g);
          y = rd (mt_stateVector g1) (mt_stateIndex g1);
          g2 = g1\<lparr>mt_stateIndex := mt_stateIndex g1 + 1\<rparr>
      in (uint (tempering y), g2))"

definition randomInt31 :: "MT19937 \<Rightarrow> int \<times> MT19937" where
  "randomInt31 g =
     (let (r, g') = randomInt32 g
      in (uint (drop_bit 1 (word_of_int r :: u32)), g'))"

text \<open>
  The four functions that return a fraction compute it from one or two results of
  \<^verbatim>\<open>randomInt32\<close> by a fixed expression of double arithmetic. The result is kept as that
  expression with its integer operands: \<open>Float1 r\<close> is \<^verbatim>\<open>r * (1 / 4294967295)\<close>,
  \<open>Float2 r\<close> is \<^verbatim>\<open>r * (1 / 4294967296)\<close>, \<open>Float3 r\<close> is \<^verbatim>\<open>(r + 0.5) * (1 / 4294967296)\<close>
  and \<open>FloatRes53 a b\<close> is \<^verbatim>\<open>(a * 67108864.0 + b) * (1 / 9007199254740992.0)\<close>.
\<close>

datatype js_number = Integer int | Float1 int | Float2 int | Float3 int | FloatRes53 int int

definition randomFloat1 :: "MT19937 \<Rightarrow> js_number \<times> MT19937" where
  "randomFloat1 g = (let (r, g') = randomInt32 g in (Float1 r, g'))"

definition randomFloat2 :: "MT19937 \<Rightarrow> js_number \<times> MT19937" where
  "randomFloat2 g = (let (r, g') = randomInt32 g in (Float2 r, g'))"

definition randomFloat3 :: "MT19937 \<Rightarrow> js_number \<times> MT19937" where
  "randomFloat3 g = (let (r, g') = randomInt32 g in (Float3 r, g'))"

definition randomFloatRes53 :: "MT19937 \<Rightarrow> js_number \<times> MT19937" where
  "randomFloatRes53 g =
     (let (r1, g1) = randomInt32 g;
          a = uint (drop_bit 5 (word_of_int r1 :: u32));
          (r2, g2) = randomInt32 g1;
          b = uint (drop_bit 6 (word_of_int r2 :: u32))
      in (FloatRes53 a b, g2))"

text \<open>A call of any of the six output functions, and a sequence of such calls.\<close>

datatype output_function =
  RandomInt32 | RandomInt31 | RandomFloat1 | RandomFloat2 | RandomFloat3 | RandomFloatRes53

fun call :: "output_function \<Rightarrow> MT19937 \<Rightarrow> js_number \<times> MT19937" where
  "call RandomInt32 g = (let (r, g') = randomInt32 g in (Integer r, g'))"
| "call RandomInt31 g = (let (r, g') = randomInt31 g in (Integer r, g'))"
| "call RandomFloat1 g = randomFloat1 g"
| "call RandomFloat2 g = randomFloat2 g"
| "call RandomFloat3 g = randomFloat3 g"
| "call RandomFloatRes53 g = randomFloatRes53 g"

fun draws :: "output_function list \<Rightarrow> MT19937 \<Rightarrow> js_number list \<times> MT19937" where
  "draws [] g = ([], g)"
| "draws (f # fs) g =
     (let (x, g1) = call f g;
          (xs, g2) = draws fs g1
      in (x # xs, g2))"

section \<open>The stated behaviour\<close>

text \<open>
  The word scalar seeding stores at index \<open>i\<close>, as the specification gives it, with
  every operation on 32-bit unsigned words: from \<open>x\<close>, the previous word xor its top
  two bits, \<^verbatim>\<open>((((x >> 16) * 1812433253) << 16) + (x & 0xFFFF) * 1812433253 + i) mod 2^32\<close>.
\<close>

definition spec_init_word :: "u32 \<Rightarrow> int \<Rightarrow> u32" where
  "spec_init_word x i =
     push_bit 16 (drop_bit 16 x * 1812433253) + (x AND 0xFFFF) * 1812433253 + word_of_int i"

text \<open>
  The regeneration as the specification gives it: one formula with the indices taken
  modulo \<open>N\<close>, applied at each \<open>kk\<close> from 0 to \<open>N - 1\<close> in turn, on the vector as the
  earlier applications left it.
\<close>

definition spec_twist_step :: "MT19937 \<Rightarrow> int \<Rightarrow> js_array \<Rightarrow> js_array" where
  "spec_twist_step g kk v =
     (let y = (rd v kk AND word_of_int (mt_UPPER_MASK g))
              OR (rd v ((kk + 1) mod mt_N g) AND word_of_int (mt_LOWER_MASK g));
          next_word_source = rd v ((kk + mt_M g) mod mt_N g)
      in v(kk := Some (next_word_source XOR drop_bit 1 y
                        XOR (if y AND 1 = 1 then word_of_int (mt_MATRIX_A g) else 0))))"

definition spec_regenerate :: "MT19937 \<Rightarrow> js_array \<Rightarrow> js_array" where
  "spec_regenerate g v = fold (spec_twist_step g) [0..mt_N g - 1] v"

text \<open>
  The reference seeding of MT19937, the C program of Matsumoto and Nishimura that the
  header of \<^verbatim>\<open>index.ts\<close> names (\<^verbatim>\<open>init_genrand\<close> and \<^verbatim>\<open>init_by_array\<close>), on a state of
  \<open>n\<close> 32-bit unsigned words; the reference has \<open>n = 624\<close>. It multiplies the whole
  word, \<^verbatim>\<open>mt[i-1] ^ (mt[i-1] >> 30)\<close>, by the constant, where the source and the
  specification multiply its two halves.
\<close>

definition ref_init_genrand :: "nat \<Rightarrow> u32 \<Rightarrow> u32 list" where
  "ref_init_genrand n s =
     fold (\<lambda>mti mt. mt[mti := 1812433253 * (mt ! (mti - 1) XOR drop_bit 30 (mt ! (mti - 1)))
                              + of_nat mti])
          [1..<n] ((replicate n 0)[0 := s])"

definition ref_mix_step :: "nat \<Rightarrow> u32 list \<Rightarrow> u32 list \<times> nat \<times> nat \<Rightarrow> u32 list \<times> nat \<times> nat" where
  "ref_mix_step n init_key st =
     (case st of (mt, i, j) \<Rightarrow>
        (let mt1 = mt[i := (mt ! i XOR ((mt ! (i - 1) XOR drop_bit 30 (mt ! (i - 1))) * 1664525))
                           + init_key ! j + of_nat j];
             i1 = i + 1;
             j1 = j + 1;
             mt2 = (if i1 \<ge> n then mt1[0 := mt1 ! (n - 1)] else mt1);
             i2 = (if i1 \<ge> n then 1 else i1);
             j2 = (if j1 \<ge> length init_key then 0 else j1)
         in (mt2, i2, j2)))"

definition ref_decor_step :: "nat \<Rightarrow> u32 list \<times> nat \<Rightarrow> u32 list \<times> nat" where
  "ref_decor_step n st =
     (case st of (mt, i) \<Rightarrow>
        (let mt1 = mt[i := (mt ! i XOR ((mt ! (i - 1) XOR drop_bit 30 (mt ! (i - 1))) * 1566083941))
                           - of_nat i];
             i1 = i + 1;
             mt2 = (if i1 \<ge> n then mt1[0 := mt1 ! (n - 1)] else mt1);
             i2 = (if i1 \<ge> n then 1 else i1)
         in (mt2, i2)))"

definition ref_init_by_array :: "nat \<Rightarrow> u32 list \<Rightarrow> u32 list" where
  "ref_init_by_array n init_key =
     (let mt0 = ref_init_genrand n 19650218;
          k = (if n > length init_key then n else length init_key);
          (mt1, i1, j1) = (ref_mix_step n init_key ^^ k) (mt0, 1, 0);
          (mt2, i2) = (ref_decor_step n ^^ (n - 1)) (mt1, i1)
      in mt2[0 := 0x80000000])"

section \<open>Auxiliary definitions\<close>

text \<open>The state vector after one pass of the loop of \<^verbatim>\<open>_initWithNumber\<close>.\<close>

definition init_next :: "js_array \<Rightarrow> int \<Rightarrow> js_array" where
  "init_next v idx =
     v(idx := Some (word_of_int (mulSplit16 1812433253
                      (rd v (idx - 1) XOR drop_bit 30 (rd v (idx - 1))) + idx)))"

text \<open>A generator with three state words and no word stored yet.\<close>

definition small_generator :: MT19937 where
  "small_generator =
     \<lparr>mt_N = 3, mt_M = 1, mt_MATRIX_A = MATRIX_A, mt_UPPER_MASK = UPPER_MASK,
      mt_LOWER_MASK = LOWER_MASK, mt_seed = None, mt_stateVector = (\<lambda>i. None),
      mt_stateIndex = 4\<rparr>"

text \<open>
  The two loops of \<^verbatim>\<open>_initWithArray\<close> when they return: as many passes of the first as
  the larger of \<open>n\<close> and the length of the key, then \<open>n - 1\<close> passes of the second.
\<close>

definition array_passes :: "int \<Rightarrow> int list \<Rightarrow> js_array \<Rightarrow> js_array \<times> int" where
  "array_passes n initKey v =
     (let (v1, i1, j1) = (mix_step n initKey ^^ nat (max n (int (length initKey)))) (v, 1, 0)
      in (decor_step n ^^ nat (n - 1)) (v1, i1))"

text \<open>
  The options of the test \<^verbatim>\<open>set custom parameters\<close>, and a set of options for a call
  with a seed.
\<close>

definition test_parameters :: MT19937Parameters where
  "test_parameters =
     \<lparr>stateLength = Some 123, statePeriod = Some 456, matrixA = Some 0x8808C1DF,
      upperMask = Some 0x60000000, lowerMask = Some 0x5FFFFFFF, autoSeeder = None\<rparr>"

definition custom_parameters :: MT19937Parameters where
  "custom_parameters =
     \<lparr>stateLength = Some 5, statePeriod = Some 2, matrixA = Some 1,
      upperMask = Some 2, lowerMask = Some 3, autoSeeder = None\<rparr>"

text \<open>The object the constructor has built when it calls \<^verbatim>\<open>_init\<close>.\<close>

definition fresh :: "int \<Rightarrow> int \<Rightarrow> int \<Rightarrow> int \<Rightarrow> int \<Rightarrow> MT19937" where
  "fresh n m a u l =
     \<lparr>mt_N = n, mt_M = m, mt_MATRIX_A = a, mt_UPPER_MASK = u, mt_LOWER_MASK = l,
      mt_seed = None, mt_stateVector = (\<lambda>i. None), mt_stateIndex = n + 1\<rparr>"

text \<open>
  Two state vectors with the same content at the indices from 0 to \<open>n - 1\<close>; two
  generators with the same configuration; and two generators with the same
  configuration, the same state index and the same content of the \<open>N\<close> state words.
\<close>

definition agree :: "int \<Rightarrow> js_array \<Rightarrow> js_array \<Rightarrow> bool" where
  "agree n v v' = (\<forall>i. 0 \<le> i \<and> i < n \<longrightarrow> v i = v' i)"

definition same_config :: "MT19937 \<Rightarrow> MT19937 \<Rightarrow> bool" where
  "same_config g g' =
     (mt_N g' = mt_N g \<and> mt_M g' = mt_M g \<and> mt_MATRIX_A g' = mt_MATRIX_A g \<and>
      mt_UPPER_MASK g' = mt_UPPER_MASK g \<and> mt_LOWER_MASK g' = mt_LOWER_MASK g)"

definition same_words :: "MT19937 \<Rightarrow> MT19937 \<Rightarrow> bool" where
  "same_words g g' =
     (mt_N g' = mt_N g \<and> mt_M g' = mt_M g \<and> mt_MATRIX_A g' = mt_MATRIX_A g \<and>
      mt_UPPER_MASK g' = mt_UPPER_MASK g \<and> mt_LOWER_MASK g' = mt_LOWER_MASK g \<and>
      mt_stateIndex g' = mt_stateIndex g \<and>
      agree (mt_N g) (mt_stateVector g) (mt_stateVector g'))"

text \<open>The loop states of \<^verbatim>\<open>_initWithArray\<close> that differ outside the state words only.\<close>

definition mix_related :: "int \<Rightarrow> js_array \<times> int \<times> int \<Rightarrow> js_array \<times> int \<times> int \<Rightarrow> bool" where
  "mix_related n st st' =
     (agree n (fst st) (fst st') \<and> snd st' = snd st \<and> 1 \<le> fst (snd st) \<and> fst (snd st) < n)"

definition decor_related :: "int \<Rightarrow> js_array \<times> int \<Rightarrow> js_array \<times> int \<Rightarrow> bool" where
  "decor_related n st st' =
     (agree n (fst st) (fst st') \<and> snd st' = snd st \<and> 1 \<le> snd st \<and> snd st < n)"

text \<open>
  The generators a program can hold: returned by the constructor, then reseeded through
  the \<^verbatim>\<open>seed\<close> property or advanced by a call of an output function, any number of
  times.
\<close>

inductive reachable :: "MT19937 \<Rightarrow> bool" where
  constructed: "MT19937_new arg1 arg2 ambient = Some (Inr g) \<Longrightarrow> reachable g"
| reseeded: "reachable g \<Longrightarrow> set_seed g seed = Some g' \<Longrightarrow> reachable g'"
| drawn: "reachable g \<Longrightarrow> reachable (snd (call f g))"

text \<open>The generator \<^verbatim>\<open>new MT19937(5)\<close> returns.\<close>

definition seeded_default :: MT19937 where
  "seeded_default =
     initWithNumber ((fresh STATE_LENGTH STATE_PERIOD MATRIX_A UPPER_MASK LOWER_MASK)
                       \<lparr>mt_seed := Some (SeedNumber 5)\<rparr>) 5"

text \<open>
  The first \<open>k\<close> words of a state vector are the first \<open>k\<close> elements of a list, and
  the loop states of \<^verbatim>\<open>_initWithArray\<close> that match loop states of the reference.
\<close>

definition holds :: "nat \<Rightarrow> js_array \<Rightarrow> u32 list \<Rightarrow> bool" where
  "holds k v xs = (\<forall>i<k. v (int i) = Some (xs ! i))"

definition mix_sim ::
  "nat \<Rightarrow> u32 list \<Rightarrow> js_array \<times> int \<times> int \<Rightarrow> u32 list \<times> nat \<times> nat \<Rightarrow> bool" where
  "mix_sim n init_key st rs =
     (holds n (fst st) (fst rs) \<and> length (fst rs) = n \<and>
      fst (snd st) = int (fst (snd rs)) \<and> snd (snd st) = int (snd (snd rs)) \<and>
      1 \<le> fst (snd rs) \<and> fst (snd rs) < n \<and> snd (snd rs) < length init_key)"

definition decor_sim :: "nat \<Rightarrow> js_array \<times> int \<Rightarrow> u32 list \<times> nat \<Rightarrow> bool" where
  "decor_sim n st rs =
     (holds n (fst st) (fst rs) \<and> length (fst rs) = n \<and> snd st = int (snd rs) \<and>
      1 \<le> snd rs \<and> snd rs < n)"

section \<open>The split multiplication\<close>

lemma hi16: "drop_bit 16 (s AND (0xFFFF0000::u32)) = drop_bit 16 s"
proof -
  have c: "(0xFFFF0000::u32) = push_bit 16 (mask 16)"
    by (simp add: mask_eq_exp_minus_1)
  show ?thesis
    unfolding c by (rule bit_word_eqI) (auto simp: bit_simps dest: bit_imp_le_length)
qed

lemma lo16: "s AND (0xFFFF::u32) = take_bit 16 s"
proof -
  have "(0xFFFF::u32) = mask 16"
    by (simp add: mask_eq_exp_minus_1)
  then show ?thesis
    by (simp add: take_bit_eq_mask)
qed

lemma tk16: "take_bit 16 (drop_bit 16 (s::u32)) = drop_bit 16 s"
  by (rule bit_word_eqI) (auto simp: bit_simps dest: bit_imp_le_length)

text \<open>Read as a 32-bit word, the split multiplication is the product with \<open>c\<close>.\<close>

lemma mulSplit16_word: "(word_of_int (mulSplit16 c s) :: u32) = word_of_int c * s"
proof -
  have "(word_of_int (mulSplit16 c s) :: u32)
        = push_bit 16 (drop_bit 16 s * word_of_int c) + take_bit 16 s * word_of_int c"
    by (simp add: mulSplit16_def hi16 lo16 tk16)
  also have "\<dots> = (push_bit 16 (drop_bit 16 s) + take_bit 16 s) * word_of_int c"
    by (simp add: push_bit_eq_mult algebra_simps)
  also have "\<dots> = word_of_int c * s"
    by (simp add: bits_ident)
  finally show ?thesis .
qed

text \<open>
  So is the split multiplication of the specification, on 32-bit words throughout:
  both are the whole-word product of the reference program.
\<close>

lemma split_product:
  "push_bit 16 (drop_bit 16 x * c) + (x AND 0xFFFF) * c = x * (c::u32)"
proof -
  have "push_bit 16 (drop_bit 16 x * c) + (x AND 0xFFFF) * c
        = (push_bit 16 (drop_bit 16 x) + take_bit 16 x) * c"
    by (simp add: lo16 push_bit_eq_mult algebra_simps)
  then show ?thesis
    by (simp add: bits_ident)
qed

lemma spec_init_word_product:
  "spec_init_word x i = 1812433253 * x + word_of_int i"
  by (simp add: spec_init_word_def split_product mult.commute)

lemma spec_init_word_eq:
  "spec_init_word x i = word_of_int (mulSplit16 1812433253 x + i)"
proof -
  have "spec_init_word x i
        = (push_bit 16 (drop_bit 16 x) + take_bit 16 x) * 1812433253 + word_of_int i"
    by (simp add: spec_init_word_def lo16 push_bit_eq_mult algebra_simps)
  also have "\<dots> = word_of_int (mulSplit16 1812433253 x) + word_of_int i"
    by (simp add: bits_ident mulSplit16_word)
  finally show ?thesis by simp
qed

section \<open>Scalar seeding: the loop\<close>

lemma initWithNumber_loop_unfold:
  "idx < n \<Longrightarrow> initWithNumber_loop n v idx = initWithNumber_loop n (init_next v idx) (idx + 1)"
  by (subst initWithNumber_loop.simps) (simp add: Let_def init_next_def)

lemma initWithNumber_loop_stop:
  "\<not> idx < n \<Longrightarrow> initWithNumber_loop n v idx = (v, idx)"
  by (subst initWithNumber_loop.simps) simp

lemma initWithNumber_loop_index:
  "snd (initWithNumber_loop n v idx) = (if idx < n then n else idx)"
proof (induction n v idx rule: initWithNumber_loop.induct)
  case (1 n v idx)
  show ?case
  proof (cases "idx < n")
    case True
    define r where "r = initWithNumber_loop n (init_next v idx) (idx + 1)"
    have unfold: "initWithNumber_loop n v idx = r"
      unfolding r_def by (rule initWithNumber_loop_unfold [OF True])
    have "snd r = (if idx + 1 < n then n else idx + 1)"
      unfolding r_def init_next_def by (rule "1.IH" [OF True refl refl])
    with True show ?thesis
      unfolding unfold by simp
  next
    case False
    then show ?thesis by (simp add: initWithNumber_loop_stop)
  qed
qed

text \<open>The loop writes at the indices from \<open>idx\<close> to \<open>n - 1\<close> only.\<close>

lemma initWithNumber_loop_frame:
  "i < idx \<or> n \<le> i \<Longrightarrow> fst (initWithNumber_loop n v idx) i = v i"
proof (induction n v idx rule: initWithNumber_loop.induct)
  case (1 n v idx)
  show ?case
  proof (cases "idx < n")
    case True
    define r where "r = initWithNumber_loop n (init_next v idx) (idx + 1)"
    have unfold: "initWithNumber_loop n v idx = r"
      unfolding r_def by (rule initWithNumber_loop_unfold [OF True])
    from "1.prems" have "i < idx + 1 \<or> n \<le> i" by auto
    then have "fst r i = init_next v idx i"
      unfolding r_def init_next_def by (rule "1.IH" [OF True refl refl])
    with True "1.prems" show ?thesis
      unfolding unfold by (auto simp: init_next_def)
  next
    case False
    then show ?thesis by (simp add: initWithNumber_loop_stop)
  qed
qed

text \<open>Each word the loop writes is computed from the final word before it.\<close>

lemma initWithNumber_loop_word:
  "idx \<le> i \<Longrightarrow> i < n \<Longrightarrow>
   fst (initWithNumber_loop n v idx) i =
     Some (word_of_int (mulSplit16 1812433253
        (rd (fst (initWithNumber_loop n v idx)) (i - 1) XOR
         drop_bit 30 (rd (fst (initWithNumber_loop n v idx)) (i - 1))) + i))"
proof (induction n v idx rule: initWithNumber_loop.induct)
  case (1 n v idx)
  from "1.prems" have lt: "idx < n" by simp
  define r where "r = initWithNumber_loop n (init_next v idx) (idx + 1)"
  have unfold: "initWithNumber_loop n v idx = r"
    unfolding r_def by (rule initWithNumber_loop_unfold [OF lt])
  show ?case
  proof (cases "i = idx")
    case True
    have a: "fst r idx = init_next v idx idx"
      unfolding r_def by (rule initWithNumber_loop_frame) simp
    have b: "fst r (idx - 1) = init_next v idx (idx - 1)"
      unfolding r_def by (rule initWithNumber_loop_frame) simp
    have c: "rd (fst r) (idx - 1) = rd v (idx - 1)"
      unfolding rd_def b by (simp add: init_next_def)
    show ?thesis
      unfolding unfold True a c by (simp add: init_next_def)
  next
    case False
    with "1.prems" have "idx + 1 \<le> i" by simp
    then show ?thesis
      unfolding unfold unfolding r_def init_next_def
      using \<open>i < n\<close> by (rule "1.IH" [OF lt refl refl])
  qed
qed

lemma initWithNumber_eq:
  "initWithNumber g seed =
     g\<lparr>mt_stateVector :=
          fst (initWithNumber_loop (mt_N g) ((mt_stateVector g)(0 := Some (word_of_int seed))) 1),
       mt_stateIndex :=
          snd (initWithNumber_loop (mt_N g) ((mt_stateVector g)(0 := Some (word_of_int seed))) 1)\<rparr>"
  by (simp add: initWithNumber_def Let_def case_prod_beta)

lemma initWithNumber_index:
  "mt_stateIndex (initWithNumber g seed) = (if 1 < mt_N g then mt_N g else 1)"
  by (simp add: initWithNumber_eq initWithNumber_loop_index)

lemma initWithNumber_first:
  "mt_stateVector (initWithNumber g seed) 0 = Some (word_of_int seed)"
  by (simp add: initWithNumber_eq initWithNumber_loop_frame)

lemma initWithNumber_word:
  assumes "1 \<le> i" and "i < mt_N g"
  shows "mt_stateVector (initWithNumber g seed) i =
     Some (word_of_int (mulSplit16 1812433253
        (rd (mt_stateVector (initWithNumber g seed)) (i - 1) XOR
         drop_bit 30 (rd (mt_stateVector (initWithNumber g seed)) (i - 1))) + i))"
  using initWithNumber_loop_word [OF assms]
  by (simp add: initWithNumber_eq)

lemma initWithNumber_defined:
  assumes "0 \<le> i" and "i < mt_N g"
  shows "mt_stateVector (initWithNumber g seed) i =
         Some (rd (mt_stateVector (initWithNumber g seed)) i)"
proof (cases "i = 0")
  case True
  then show ?thesis
    by (simp add: rd_def initWithNumber_first)
next
  case False
  with assms have "1 \<le> i" by simp
  from initWithNumber_word [OF this assms(2), of seed] show ?thesis
    by (simp add: rd_def)
qed

section \<open>Scalar seeding: the stored words\<close>

text \<open>
  C2. Scalar seeding of a generator of at least one state word, with any 32-bit unsigned
  seed \<open>s0\<close>: the word at index 0 is \<open>s0\<close>; for each \<open>i\<close> from 1 to \<open>N - 1\<close> the word
  at \<open>i\<close> is the stated expression of \<open>x\<close>, the word \<open>w\<close> at \<open>i - 1\<close> xor \<open>w >>> 30\<close>, in
  wrap-around 32-bit unsigned arithmetic; and the state index is \<open>N\<close> afterwards.
\<close>

theorem initWithNumber_spec:
  assumes "1 \<le> mt_N g"
  shows "mt_stateVector (initWithNumber g (uint s0)) 0 = Some s0 \<and>
         (\<forall>i. 1 \<le> i \<and> i < mt_N g \<longrightarrow>
            (\<exists>w. mt_stateVector (initWithNumber g (uint s0)) (i - 1) = Some w \<and>
                 mt_stateVector (initWithNumber g (uint s0)) i =
                   Some (spec_init_word (w XOR drop_bit 30 w) i))) \<and>
         mt_stateIndex (initWithNumber g (uint s0)) = mt_N g"
proof (intro conjI allI impI)
  show "mt_stateVector (initWithNumber g (uint s0)) 0 = Some s0"
    by (simp add: initWithNumber_first)
next
  fix i
  assume i: "1 \<le> i \<and> i < mt_N g"
  let ?v = "mt_stateVector (initWithNumber g (uint s0))"
  from i have "?v (i - 1) = Some (rd ?v (i - 1))"
    by (intro initWithNumber_defined) simp_all
  moreover from i have "?v i = Some (spec_init_word (rd ?v (i - 1) XOR drop_bit 30 (rd ?v (i - 1))) i)"
    unfolding spec_init_word_eq by (intro initWithNumber_word) simp_all
  ultimately show "\<exists>w. ?v (i - 1) = Some w \<and> ?v i = Some (spec_init_word (w XOR drop_bit 30 w) i)"
    by blast
next
  from assms show "mt_stateIndex (initWithNumber g (uint s0)) = mt_N g"
    by (simp add: initWithNumber_index)
qed

theorem initWithNumber_spec_witness:
  "mt_stateVector (initWithNumber small_generator (uint (5::u32))) 0 = Some 5 \<and>
   mt_stateVector (initWithNumber small_generator (uint (5::u32))) 1 =
     Some (spec_init_word (5 XOR drop_bit 30 5) 1) \<and>
   mt_stateIndex (initWithNumber small_generator (uint (5::u32))) = 3"
proof -
  have n: "mt_N small_generator = 3"
    by (simp add: small_generator_def)
  then have "1 \<le> mt_N small_generator"
    by simp
  note t = initWithNumber_spec [OF this, of 5]
  from t have "1 \<le> (1::int) \<and> 1 < mt_N small_generator \<longrightarrow>
      (\<exists>w. mt_stateVector (initWithNumber small_generator (uint (5::u32))) (1 - 1) = Some w \<and>
           mt_stateVector (initWithNumber small_generator (uint (5::u32))) 1 =
             Some (spec_init_word (w XOR drop_bit 30 w) 1))"
    by blast
  with t n show ?thesis
    by auto
qed

section \<open>Integer outputs\<close>

lemma randomInt32_value:
  "fst (randomInt32 g) =
     uint (tempering
       (rd (mt_stateVector (if mt_stateIndex g \<ge> mt_N g then regenerate g else g))
           (mt_stateIndex (if mt_stateIndex g \<ge> mt_N g then regenerate g else g))))"
  by (simp add: randomInt32_def Let_def)

lemma randomInt31_value:
  "fst (randomInt31 g) = uint (drop_bit 1 (word_of_int (fst (randomInt32 g)) :: u32))"
  by (simp add: randomInt31_def case_prod_beta)

lemma uint_u32_less: "uint (w::u32) \<le> 4294967295"
  using uint_lt2p [of w] by simp

lemma uint_drop1: "uint (drop_bit 1 (w::u32)) = uint w div 2"
proof -
  have "uint (drop_bit 1 w) = uint (w div 2)"
    by (simp add: drop_bit_eq_div)
  then show ?thesis
    by (simp add: uint_div_distrib)
qed

text \<open>
  C7. In every generator state, \<^verbatim>\<open>randomInt32\<close> returns an integer from 0 to 4294967295,
  which is the tempered state word read after the regeneration (if one was due) as an
  unsigned 32-bit value; \<^verbatim>\<open>randomInt31\<close> returns that result shifted right by one bit,
  an integer from 0 to 2147483647, and leaves the generator as \<^verbatim>\<open>randomInt32\<close> does.
\<close>

theorem randomInt_ranges:
  "0 \<le> fst (randomInt32 g) \<and> fst (randomInt32 g) \<le> 4294967295 \<and>
   fst (randomInt32 g) =
     uint (tempering
       (rd (mt_stateVector (if mt_stateIndex g \<ge> mt_N g then regenerate g else g))
           (mt_stateIndex (if mt_stateIndex g \<ge> mt_N g then regenerate g else g)))) \<and>
   fst (randomInt31 g) = uint (drop_bit 1 (word_of_int (fst (randomInt32 g)) :: u32)) \<and>
   fst (randomInt31 g) = fst (randomInt32 g) div 2 \<and>
   snd (randomInt31 g) = snd (randomInt32 g) \<and>
   0 \<le> fst (randomInt31 g) \<and> fst (randomInt31 g) \<le> 2147483647"
proof -
  obtain w :: u32 where w: "fst (randomInt32 g) = uint w"
    using randomInt32_value by blast
  have a: "fst (randomInt31 g) = uint w div 2"
    unfolding randomInt31_value w by (simp only: word_of_int_uint uint_drop1)
  have b: "uint w \<le> 4294967295"
    by (rule uint_u32_less)
  have c: "snd (randomInt31 g) = snd (randomInt32 g)"
    by (simp add: randomInt31_def case_prod_beta)
  from b have d: "uint w div 2 \<le> 2147483647" by simp
  show ?thesis
    using a b c d randomInt32_value [of g] randomInt31_value [of g] w by simp
qed

text \<open>
  Evaluated on the generator of three state words with period 1, seeded with 5: the
  three words, nothing stored at index 3, and the results of \<^verbatim>\<open>randomInt32\<close> and then
  \<^verbatim>\<open>randomInt31\<close>.
\<close>

lemma small_scalar_words:
  "map (mt_stateVector (initWithNumber small_generator 5)) [0, 1, 2, 3]
   = [Some 5, Some 472231674, Some 2253902500, None]"
  by code_simp

lemma small_scalar_outputs:
  "fst (draws [RandomInt32, RandomInt31] (initWithNumber small_generator 5))
   = [Integer 2411530375, Integer 697452572]"
  by code_simp

section \<open>Seeding returns\<close>

lemma initWithNumber_config:
  "mt_N (initWithNumber g s) = mt_N g"
  "mt_M (initWithNumber g s) = mt_M g"
  "mt_MATRIX_A (initWithNumber g s) = mt_MATRIX_A g"
  "mt_UPPER_MASK (initWithNumber g s) = mt_UPPER_MASK g"
  "mt_LOWER_MASK (initWithNumber g s) = mt_LOWER_MASK g"
  "mt_seed (initWithNumber g s) = mt_seed g"
  by (simp_all add: initWithNumber_eq)

lemma mix_loop_nat:
  "mix_loop n initKey st (int k) = Some ((mix_step n initKey ^^ k) st)"
proof (induction k arbitrary: st)
  case 0
  show ?case by (subst mix_loop.simps) simp
next
  case (Suc k)
  have "mix_loop n initKey st (int (Suc k)) = mix_loop n initKey (mix_step n initKey st) (int k)"
    by (subst mix_loop.simps) simp
  also have "\<dots> = Some ((mix_step n initKey ^^ k) (mix_step n initKey st))"
    by (rule Suc.IH)
  finally show ?case
    by (simp add: funpow_swap1)
qed

lemma decor_loop_nat:
  "decor_loop n st (int k) = Some ((decor_step n ^^ k) st)"
proof (induction k arbitrary: st)
  case 0
  show ?case by (subst decor_loop.simps) simp
next
  case (Suc k)
  have "decor_loop n st (int (Suc k)) = decor_loop n (decor_step n st) (int k)"
    by (subst decor_loop.simps) simp
  also have "\<dots> = Some ((decor_step n ^^ k) (decor_step n st))"
    by (rule Suc.IH)
  finally show ?case
    by (simp add: funpow_swap1)
qed

lemma initWithArray_eq:
  assumes "1 \<le> mt_N g"
  shows "initWithArray g initKey =
     Some ((initWithNumber g MAGIC_SEED)
        \<lparr>mt_stateVector :=
           (fst (array_passes (mt_N g) initKey (mt_stateVector (initWithNumber g MAGIC_SEED))))
             (0 := Some 0x80000000)\<rparr>)"
proof -
  define k where "k = nat (max (mt_N g) (int (length initKey)))"
  define d where "d = nat (mt_N g - 1)"
  have k: "(if mt_N g > int (length initKey) then mt_N g else int (length initKey)) = int k"
    using assms by (simp add: k_def max_def)
  have d: "mt_N g - 1 = int d"
    using assms by (simp add: d_def)
  show ?thesis
    unfolding initWithArray_def Let_def k d mix_loop_nat decor_loop_nat array_passes_def
    unfolding k_def [symmetric] d_def [symmetric]
    by (simp add: case_prod_beta)
qed

lemma init_number:
  "init g (SeedNumber s) = Some (initWithNumber (g\<lparr>mt_seed := Some (SeedNumber s)\<rparr>) s)"
  by (simp add: init_def)

lemma init_array:
  "1 \<le> mt_N g \<Longrightarrow> \<exists>g'. init g (SeedArray ks) = Some g' \<and> mt_seed g' = Some (SeedArray ks)
     \<and> mt_N g' = mt_N g \<and> mt_M g' = mt_M g \<and> mt_MATRIX_A g' = mt_MATRIX_A g
     \<and> mt_UPPER_MASK g' = mt_UPPER_MASK g \<and> mt_LOWER_MASK g' = mt_LOWER_MASK g
     \<and> mt_stateIndex g' = mt_N g"
  by (simp add: init_def initWithArray_eq initWithNumber_config initWithNumber_index)

text \<open>
  Where seeding does not behave as for a state of at least one word: with a state
  length of 0, which \<^verbatim>\<open>new Array\<close> accepts, scalar seeding leaves the state index at 1,
  and the second loop of array seeding starts at \<open>k = -1\<close> and does not return.
\<close>

lemma initWithNumber_no_words:
  "mt_N g = 0 \<Longrightarrow> mt_stateIndex (initWithNumber g s) = 1"
  by (simp add: initWithNumber_index)

lemma decor_loop_Some:
  assumes "decor_loop n st k = Some r"
  shows "0 \<le> k"
proof -
  have step: "0 \<le> k"
    if IH: "\<And>n st k r. f n st k = Some r \<Longrightarrow> 0 \<le> k"
      and eq: "(if k \<noteq> 0 then f n (decor_step n st) (k - 1) else Some st) = Some r"
    for f :: "int \<Rightarrow> js_array \<times> int \<Rightarrow> int \<Rightarrow> (js_array \<times> int) option"
      and n st k r
  proof (cases "k = 0")
    case True
    then show ?thesis by simp
  next
    case False
    with eq have "f n (decor_step n st) (k - 1) = Some r"
      by simp
    then have "0 \<le> k - 1"
      by (rule IH)
    then show ?thesis by simp
  qed
  from decor_loop.raw_induct [where P = "\<lambda>n st k r. 0 \<le> k", OF step assms]
  show ?thesis .
qed

lemma initWithArray_no_words:
  assumes "mt_N g = 0"
  shows "initWithArray g initKey = None"
proof -
  have "decor_loop 0 st (- 1) = None" for st
    using decor_loop_Some [of 0 st "- 1"] by (cases "decor_loop 0 st (- 1)") auto
  then show ?thesis
    by (simp add: initWithArray_def Let_def assms split: option.splits)
qed

section \<open>The constructor\<close>

lemma MT19937_new_Arr:
  "MT19937_new (Arr ks) arg2 ambient =
     map_option Inr (init (fresh STATE_LENGTH STATE_PERIOD MATRIX_A UPPER_MASK LOWER_MASK)
       (SeedArray ks))"
  by (simp add: MT19937_new_def number_or_array_def non_null_object_def option_or_def
      no_options_def Let_def fresh_def STATE_LENGTH_def)

lemma MT19937_new_Num:
  "MT19937_new (Num s) arg2 ambient =
     (let parameters = non_null_object arg2;
          n = option_or parameters stateLength STATE_LENGTH
      in if n < 0 \<or> 2 ^ 32 \<le> n then Some (Inl RangeError)
         else Some (Inr (initWithNumber
                ((fresh n (option_or parameters statePeriod STATE_PERIOD)
                    (option_or parameters matrixA MATRIX_A)
                    (option_or parameters upperMask UPPER_MASK)
                    (option_or parameters lowerMask LOWER_MASK))
                  \<lparr>mt_seed := Some (SeedNumber s)\<rparr>) s)))"
  by (simp add: MT19937_new_def number_or_array_def non_null_object_def 
      Let_def fresh_def init_number)

lemma MT19937_new_Obj:
  "MT19937_new (Obj p) arg2 ambient =
     (let seed = (case autoSeeder p of Some f \<Rightarrow> f () | None \<Rightarrow> ambient);
          n = option_or (Some p) stateLength STATE_LENGTH
      in if n < 0 \<or> 2 ^ 32 \<le> n then Some (Inl RangeError)
         else Some (Inr (initWithNumber
                ((fresh n (option_or (Some p) statePeriod STATE_PERIOD)
                    (option_or (Some p) matrixA MATRIX_A)
                    (option_or (Some p) upperMask UPPER_MASK)
                    (option_or (Some p) lowerMask LOWER_MASK))
                  \<lparr>mt_seed := Some (SeedNumber seed)\<rparr>) seed)))"
  by (simp add: MT19937_new_def number_or_array_def non_null_object_def 
      Let_def fresh_def init_number)

lemma MT19937_new_Arr_returns:
  "\<exists>g. MT19937_new (Arr ks) arg2 ambient = Some (Inr g) \<and>
       mt_seed g = Some (SeedArray ks) \<and> mt_N g = STATE_LENGTH \<and> mt_M g = STATE_PERIOD \<and>
       mt_MATRIX_A g = MATRIX_A \<and> mt_UPPER_MASK g = UPPER_MASK \<and>
       mt_LOWER_MASK g = LOWER_MASK \<and> mt_stateIndex g = STATE_LENGTH"
proof -
  have "1 \<le> mt_N (fresh STATE_LENGTH STATE_PERIOD MATRIX_A UPPER_MASK LOWER_MASK)"
    by (simp add: fresh_def STATE_LENGTH_def)
  from init_array [OF this, of ks] show ?thesis
    unfolding MT19937_new_Arr by (auto simp: fresh_def)
qed

text \<open>
  C4, at the call \<^verbatim>\<open>new MT19937([1, 2, 3], {stateLength: 5, statePeriod: 2, matrixA: 1,
  upperMask: 2, lowerMask: 3})\<close>: the constructor returns a generator whose five accessors
  give the defaults 624, 397, 0x9908B0DF, 0x80000000 and 0x7FFFFFFF, not the options of
  the call. The seed is an array, an array is a non-null object, so it is taken for the
  options and the second argument is never looked at.
\<close>

theorem array_seed_ignores_parameters:
  "map_option (map_sum id get_stateLength) (MT19937_new (Arr [1, 2, 3]) (Obj custom_parameters) 0)
     = Some (Inr 624) \<and>
   map_option (map_sum id get_statePeriod) (MT19937_new (Arr [1, 2, 3]) (Obj custom_parameters) 0)
     = Some (Inr 397) \<and>
   map_option (map_sum id get_matrixA) (MT19937_new (Arr [1, 2, 3]) (Obj custom_parameters) 0)
     = Some (Inr 0x9908B0DF) \<and>
   map_option (map_sum id get_upperMask) (MT19937_new (Arr [1, 2, 3]) (Obj custom_parameters) 0)
     = Some (Inr 0x80000000) \<and>
   map_option (map_sum id get_lowerMask) (MT19937_new (Arr [1, 2, 3]) (Obj custom_parameters) 0)
     = Some (Inr 0x7FFFFFFF)"
proof -
  obtain g where "MT19937_new (Arr [1, 2, 3]) (Obj custom_parameters) 0 = Some (Inr g)"
    and "mt_N g = STATE_LENGTH" and "mt_M g = STATE_PERIOD" and "mt_MATRIX_A g = MATRIX_A"
    and "mt_UPPER_MASK g = UPPER_MASK" and "mt_LOWER_MASK g = LOWER_MASK"
    using MT19937_new_Arr_returns by blast
  then show ?thesis
    by (simp add: get_stateLength_def get_statePeriod_def get_matrixA_def get_upperMask_def
        get_lowerMask_def STATE_LENGTH_def STATE_PERIOD_def MATRIX_A_def UPPER_MASK_def
        LOWER_MASK_def)
qed

text \<open>With a scalar seed the same options are taken.\<close>

lemma scalar_seed_takes_parameters:
  "map_option (map_sum id get_stateLength) (MT19937_new (Num 12345) (Obj custom_parameters) 0)
     = Some (Inr 5) \<and>
   map_option (map_sum id get_statePeriod) (MT19937_new (Num 12345) (Obj custom_parameters) 0)
     = Some (Inr 2)"
  by (simp add: MT19937_new_Num non_null_object_def option_or_def custom_parameters_def Let_def
      get_stateLength_def get_statePeriod_def initWithNumber_config fresh_def)

section \<open>What construction accepts, and the seed read back\<close>

lemma set_seed_number:
  "set_seed g (SeedNumber s) = Some (initWithNumber (g\<lparr>mt_seed := Some (SeedNumber s)\<rparr>) s)"
  by (simp add: set_seed_def init_number)

lemma set_seed_returns:
  assumes "1 \<le> mt_N g"
  shows "\<exists>g'. set_seed g seed = Some g' \<and> mt_seed g' = Some seed \<and> mt_N g' = mt_N g \<and>
              mt_M g' = mt_M g \<and> mt_MATRIX_A g' = mt_MATRIX_A g \<and>
              mt_UPPER_MASK g' = mt_UPPER_MASK g \<and> mt_LOWER_MASK g' = mt_LOWER_MASK g \<and>
              mt_stateIndex g' = mt_N g"
proof (cases seed)
  case (SeedNumber s)
  with assms show ?thesis
    by (simp add: set_seed_number initWithNumber_config initWithNumber_index)
next
  case (SeedArray ks)
  with init_array [OF assms, of ks] show ?thesis
    by (simp add: set_seed_def)
qed

text \<open>
  C5 as stated fails: the constructor returns a generator for the options of the test
  \<^verbatim>\<open>set custom parameters\<close>, whose state period 456 is not below the state length 123,
  and it returns a generator for the empty seed array.
\<close>

theorem construction_accepts_counterexample:
  "map_option (map_sum id get_stateLength) (MT19937_new (Obj test_parameters) Undefined 0)
     = Some (Inr 123) \<and>
   map_option (map_sum id get_statePeriod) (MT19937_new (Obj test_parameters) Undefined 0)
     = Some (Inr 456) \<and>
   map_option (map_sum id get_seed) (MT19937_new (Arr []) Undefined 0)
     = Some (Inr (Some (SeedArray [])))"
proof -
  have a: "map_option (map_sum id get_stateLength) (MT19937_new (Obj test_parameters) Undefined 0)
     = Some (Inr 123)"
    by (simp add: MT19937_new_Obj option_or_def test_parameters_def Let_def
      get_stateLength_def initWithNumber_config fresh_def)
  have b: "map_option (map_sum id get_statePeriod) (MT19937_new (Obj test_parameters) Undefined 0)
     = Some (Inr 456)"
    by (simp add: MT19937_new_Obj option_or_def test_parameters_def Let_def
      get_statePeriod_def initWithNumber_config fresh_def)
  obtain g where "MT19937_new (Arr []) Undefined 0 = Some (Inr g)"
    and "mt_seed g = Some (SeedArray [])"
    using MT19937_new_Arr_returns by blast
  then have c: "map_option (map_sum id get_seed) (MT19937_new (Arr []) Undefined 0)
     = Some (Inr (Some (SeedArray [])))"
    by (simp add: get_seed_def)
  from a b c show ?thesis by simp
qed

text \<open>
  C5, amended. Construction with a scalar seed and options, and construction from
  options alone, do not reject a state period, and neither construction nor reseeding
  rejects an empty seed sequence. With a state length \<open>n\<close> and a state period \<open>m\<close> in
  the options, whatever \<open>m\<close> is, such a construction either throws the \<^verbatim>\<open>RangeError\<close> of
  \<^verbatim>\<open>new Array\<close> or returns a generator whose accessors give \<open>n\<close> and \<open>m\<close>; and whether it
  throws is the same with any other state period, or none, in the same options.
  Construction with the empty seed array and no options returns a generator that has it
  as its seed; and assigning any seed, the empty array among them, to a generator of at
  least one state word returns the generator reseeded with it, its state length and state
  period unchanged.
\<close>

theorem construction_accepts:
  assumes "stateLength p = Some n" and "statePeriod p = Some m" and "1 \<le> mt_N g0"
  shows "(MT19937_new (Num s) (Obj p) ambient = Some (Inl RangeError) \<or>
          (\<exists>g. MT19937_new (Num s) (Obj p) ambient = Some (Inr g) \<and>
               get_stateLength g = n \<and> get_statePeriod g = m)) \<and>
         (MT19937_new (Obj p) arg2 ambient = Some (Inl RangeError) \<or>
          (\<exists>g. MT19937_new (Obj p) arg2 ambient = Some (Inr g) \<and>
               get_stateLength g = n \<and> get_statePeriod g = m)) \<and>
         ((MT19937_new (Num s) (Obj (p\<lparr>statePeriod := m'\<rparr>)) ambient = Some (Inl RangeError)) =
          (MT19937_new (Num s) (Obj p) ambient = Some (Inl RangeError))) \<and>
         ((MT19937_new (Obj (p\<lparr>statePeriod := m'\<rparr>)) arg2 ambient = Some (Inl RangeError)) =
          (MT19937_new (Obj p) arg2 ambient = Some (Inl RangeError))) \<and>
         (\<exists>g. MT19937_new (Arr []) Undefined ambient = Some (Inr g) \<and>
              get_seed g = Some (SeedArray [])) \<and>
         (\<exists>g. set_seed g0 seed = Some g \<and> get_seed g = Some seed \<and>
              get_stateLength g = mt_N g0 \<and> get_statePeriod g = mt_M g0)"
proof (intro conjI)
  from assms(1,2) show "MT19937_new (Num s) (Obj p) ambient = Some (Inl RangeError) \<or>
          (\<exists>g. MT19937_new (Num s) (Obj p) ambient = Some (Inr g) \<and>
               get_stateLength g = n \<and> get_statePeriod g = m)"
    by (simp add: MT19937_new_Num non_null_object_def option_or_def Let_def
      get_stateLength_def get_statePeriod_def initWithNumber_config fresh_def)
next
  from assms(1,2) show "MT19937_new (Obj p) arg2 ambient = Some (Inl RangeError) \<or>
          (\<exists>g. MT19937_new (Obj p) arg2 ambient = Some (Inr g) \<and>
               get_stateLength g = n \<and> get_statePeriod g = m)"
    by (simp add: MT19937_new_Obj option_or_def Let_def
      get_stateLength_def get_statePeriod_def initWithNumber_config fresh_def)
next
  from assms(1) show "(MT19937_new (Num s) (Obj (p\<lparr>statePeriod := m'\<rparr>)) ambient = Some (Inl RangeError)) =
          (MT19937_new (Num s) (Obj p) ambient = Some (Inl RangeError))"
    by (simp add: MT19937_new_Num non_null_object_def option_or_def Let_def)
next
  from assms(1) show "(MT19937_new (Obj (p\<lparr>statePeriod := m'\<rparr>)) arg2 ambient = Some (Inl RangeError)) =
          (MT19937_new (Obj p) arg2 ambient = Some (Inl RangeError))"
    by (simp add: MT19937_new_Obj option_or_def Let_def)
next
  from MT19937_new_Arr_returns [of "[]" Undefined ambient]
  show "\<exists>g. MT19937_new (Arr []) Undefined ambient = Some (Inr g) \<and> get_seed g = Some (SeedArray [])"
    by (auto simp: get_seed_def)
next
  from set_seed_returns [OF assms(3), of seed]
  show "\<exists>g. set_seed g0 seed = Some g \<and> get_seed g = Some seed \<and>
              get_stateLength g = mt_N g0 \<and> get_statePeriod g = mt_M g0"
    by (auto simp: get_seed_def get_stateLength_def get_statePeriod_def)
qed

theorem construction_accepts_witness:
  "(\<exists>g. MT19937_new (Num 1) (Obj test_parameters) 0 = Some (Inr g) \<and>
        get_stateLength g = 123 \<and> get_statePeriod g = 456) \<and>
   (\<exists>g. MT19937_new (Obj test_parameters) Undefined 0 = Some (Inr g) \<and>
        get_stateLength g = 123 \<and> get_statePeriod g = 456) \<and>
   (\<exists>g. MT19937_new (Arr []) Undefined 0 = Some (Inr g) \<and> get_seed g = Some (SeedArray [])) \<and>
   (\<exists>g. set_seed small_generator (SeedArray []) = Some g \<and> get_seed g = Some (SeedArray []))"
proof -
  have "stateLength test_parameters = Some 123" and "statePeriod test_parameters = Some 456"
    and "1 \<le> mt_N small_generator"
    by (simp_all add: test_parameters_def small_generator_def)
  note t = construction_accepts [OF this, of 1 0 Undefined None "SeedArray []"]
  have "MT19937_new (Num 1) (Obj test_parameters) 0 \<noteq> Some (Inl RangeError)"
    and "MT19937_new (Obj test_parameters) Undefined 0 \<noteq> Some (Inl RangeError)"
    by (simp_all add: MT19937_new_Num MT19937_new_Obj non_null_object_def option_or_def Let_def
        test_parameters_def)
  with t show ?thesis by blast
qed

text \<open>
  C8. The seed read back is the value passed. Construction with a scalar seed \<open>s\<close>, any
  integer, either throws the \<^verbatim>\<open>RangeError\<close> of an invalid state length or returns a
  generator whose seed is \<open>s\<close>; construction with a seed array returns a generator whose
  seed is that array; and assigning a seed to a generator of at least one state word
  gives a generator whose seed is the value assigned.
\<close>

theorem seed_round_trip:
  assumes "1 \<le> mt_N g0"
  shows "(MT19937_new (Num s) arg2 ambient = Some (Inl RangeError) \<or>
          (\<exists>g. MT19937_new (Num s) arg2 ambient = Some (Inr g) \<and>
               get_seed g = Some (SeedNumber s))) \<and>
         (\<exists>g. MT19937_new (Arr ks) arg2 ambient = Some (Inr g) \<and>
              get_seed g = Some (SeedArray ks)) \<and>
         (\<exists>g. set_seed g0 seed = Some g \<and> get_seed g = Some seed)"
proof (intro conjI)
  show "MT19937_new (Num s) arg2 ambient = Some (Inl RangeError) \<or>
          (\<exists>g. MT19937_new (Num s) arg2 ambient = Some (Inr g) \<and>
               get_seed g = Some (SeedNumber s))"
    by (simp add: MT19937_new_Num Let_def get_seed_def initWithNumber_config)
next
  from MT19937_new_Arr_returns [of ks arg2 ambient]
  show "\<exists>g. MT19937_new (Arr ks) arg2 ambient = Some (Inr g) \<and> get_seed g = Some (SeedArray ks)"
    by (auto simp: get_seed_def)
next
  from set_seed_returns [OF assms, of seed]
  show "\<exists>g. set_seed g0 seed = Some g \<and> get_seed g = Some seed"
    by (auto simp: get_seed_def)
qed

theorem seed_round_trip_witness:
  "(\<exists>g. MT19937_new (Num (- 1)) Undefined 0 = Some (Inr g) \<and>
        get_seed g = Some (SeedNumber (- 1))) \<and>
   (\<exists>g. MT19937_new (Arr [1, 2, 3, 4, 5]) Undefined 0 = Some (Inr g) \<and>
        get_seed g = Some (SeedArray [1, 2, 3, 4, 5])) \<and>
   (\<exists>g. set_seed small_generator (SeedNumber 12345) = Some g \<and>
        get_seed g = Some (SeedNumber 12345))"
proof -
  have n: "1 \<le> mt_N small_generator"
    by (simp add: small_generator_def)
  have r: "MT19937_new (Num (- 1)) Undefined 0 \<noteq> Some (Inl RangeError)"
    by (simp add: MT19937_new_Num non_null_object_def option_or_def Let_def STATE_LENGTH_def)
  from seed_round_trip [OF n, of "- 1" Undefined 0 "[1, 2, 3, 4, 5]" "SeedNumber 12345"] r
  show ?thesis by simp
qed

section \<open>The regeneration and the modular formula\<close>

lemma magic_eq: "magic a y = (if y AND 1 = 1 then word_of_int a else 0)"
  by (simp add: magic_def and_one_eq)

lemma twist_at_spec_low:
  assumes "0 \<le> kk" and "0 < mt_M g" and "kk + mt_M g < mt_N g"
  shows "twist_at g v kk (kk + 1) (kk + mt_M g) = spec_twist_step g kk v"
proof -
  from assms have "(kk + 1) mod mt_N g = kk + 1" and "(kk + mt_M g) mod mt_N g = kk + mt_M g"
    by simp_all
  then show ?thesis
    by (simp add: twist_at_def spec_twist_step_def magic_eq Let_def)
qed

lemma twist_at_spec_high:
  assumes "mt_N g \<le> kk + mt_M g" and "mt_M g < mt_N g" and "kk + 1 < mt_N g" and "0 \<le> kk"
  shows "twist_at g v kk (kk + 1) (kk + (mt_M g - mt_N g)) = spec_twist_step g kk v"
proof -
  from assms have a: "(kk + 1) mod mt_N g = kk + 1"
    by simp
  have "(kk + mt_M g) mod mt_N g = (kk + mt_M g - mt_N g) mod mt_N g"
    by simp
  also from assms have "\<dots> = kk + mt_M g - mt_N g"
    by (intro mod_pos_pos_trivial) simp_all
  finally have b: "(kk + mt_M g) mod mt_N g = kk + (mt_M g - mt_N g)"
    by simp
  show ?thesis
    by (simp add: twist_at_def spec_twist_step_def magic_eq Let_def a b)
qed

lemma twist_at_spec_last:
  assumes "0 < mt_M g" and "mt_M g < mt_N g"
  shows "twist_at g v (mt_N g - 1) 0 (mt_M g - 1) = spec_twist_step g (mt_N g - 1) v"
proof -
  have a: "(mt_N g - 1 + 1) mod mt_N g = 0"
    by simp
  from assms have "(mt_M g - 1) mod mt_N g = mt_M g - 1"
    by simp
  moreover have "(mt_N g - 1 + mt_M g) mod mt_N g = (mt_M g - 1) mod mt_N g"
    by (metis add.commute add_diff_eq diff_add_eq mod_add_self2)
  ultimately have b: "(mt_N g - 1 + mt_M g) mod mt_N g = mt_M g - 1"
    by simp
  show ?thesis
    unfolding twist_at_def spec_twist_step_def magic_eq Let_def a b by simp
qed

lemma twist_loop1_spec:
  "0 < mt_M g \<Longrightarrow> mt_M g < mt_N g \<Longrightarrow> 0 \<le> kk \<Longrightarrow> kk \<le> mt_N g - mt_M g \<Longrightarrow>
     twist_loop1 g v kk = (fold (spec_twist_step g) [kk..mt_N g - mt_M g - 1] v, mt_N g - mt_M g)"
proof (induction g v kk rule: twist_loop1.induct)
  case (1 g v kk)
  show ?case
  proof (cases "kk < mt_N g - mt_M g")
    case True
    define v' where "v' = twist_at g v kk (kk + 1) (kk + mt_M g)"
    define r where "r = twist_loop1 g v' (kk + 1)"
    have unfold: "twist_loop1 g v kk = r"
      unfolding r_def v'_def by (subst twist_loop1.simps) (simp add: True)
    have v': "v' = spec_twist_step g kk v"
      unfolding v'_def using "1.prems" True by (intro twist_at_spec_low) simp_all
    have "r = (fold (spec_twist_step g) [kk + 1..mt_N g - mt_M g - 1] v', mt_N g - mt_M g)"
      unfolding r_def v'_def using "1.prems" True by (intro "1.IH") simp_all
    moreover have "[kk..mt_N g - mt_M g - 1] = kk # [kk + 1..mt_N g - mt_M g - 1]"
      using True by (intro upto_rec1) simp
    ultimately show ?thesis
      unfolding unfold by (simp add: v')
  next
    case False
    with "1.prems" have "kk = mt_N g - mt_M g" by simp
    then show ?thesis
      by (subst twist_loop1.simps) simp
  qed
qed

lemma twist_loop2_spec:
  "0 < mt_M g \<Longrightarrow> mt_M g < mt_N g \<Longrightarrow> mt_N g - mt_M g \<le> kk \<Longrightarrow> kk \<le> mt_N g - 1 \<Longrightarrow>
     twist_loop2 g v kk = (fold (spec_twist_step g) [kk..mt_N g - 2] v, mt_N g - 1)"
proof (induction g v kk rule: twist_loop2.induct)
  case (1 g v kk)
  show ?case
  proof (cases "kk < mt_N g - 1")
    case True
    define v' where "v' = twist_at g v kk (kk + 1) (kk + (mt_M g - mt_N g))"
    define r where "r = twist_loop2 g v' (kk + 1)"
    have unfold: "twist_loop2 g v kk = r"
      unfolding r_def v'_def by (subst twist_loop2.simps) (simp add: True)
    have v': "v' = spec_twist_step g kk v"
      unfolding v'_def using "1.prems" True by (intro twist_at_spec_high) simp_all
    have "r = (fold (spec_twist_step g) [kk + 1..mt_N g - 2] v', mt_N g - 1)"
      unfolding r_def v'_def using "1.prems" True by (intro "1.IH") simp_all
    moreover have "[kk..mt_N g - 2] = kk # [kk + 1..mt_N g - 2]"
      using True by (intro upto_rec1) simp
    ultimately show ?thesis
      unfolding unfold by (simp add: v')
  next
    case False
    with "1.prems" have "kk = mt_N g - 1" by simp
    then show ?thesis
      by (subst twist_loop2.simps) simp
  qed
qed

lemma regenerate_eq_spec:
  assumes "0 < mt_M g" and "mt_M g < mt_N g"
  shows "regenerate g = g\<lparr>mt_stateVector := spec_regenerate g (mt_stateVector g), mt_stateIndex := 0\<rparr>"
proof -
  let ?f = "spec_twist_step g"
  let ?v = "mt_stateVector g"
  have l1: "twist_loop1 g ?v 0 = (fold ?f [0..mt_N g - mt_M g - 1] ?v, mt_N g - mt_M g)"
    using assms by (intro twist_loop1_spec) simp_all
  have l2: "twist_loop2 g (fold ?f [0..mt_N g - mt_M g - 1] ?v) (mt_N g - mt_M g) =
      (fold ?f [mt_N g - mt_M g..mt_N g - 2] (fold ?f [0..mt_N g - mt_M g - 1] ?v), mt_N g - 1)"
    using assms by (intro twist_loop2_spec) simp_all
  have "[0..mt_N g - 1] = [0..mt_N g - 1 - 1] @ [mt_N g - 1]"
    using assms by (intro upto_rec2) simp
  moreover have "[0..mt_N g - 2] = [0..mt_N g - mt_M g - 1] @ [mt_N g - mt_M g..mt_N g - 2]"
  proof (cases "mt_M g = 1")
    case True
    then show ?thesis by simp
  next
    case False
    with assms show ?thesis by (intro upto_split1) simp_all
  qed
  ultimately have split: "[0..mt_N g - 1] =
      [0..mt_N g - mt_M g - 1] @ [mt_N g - mt_M g..mt_N g - 2] @ [mt_N g - 1]"
    by simp
  show ?thesis
    unfolding regenerate_def l1 Let_def prod.case l2 spec_regenerate_def split
    by (simp add: twist_at_spec_last [OF assms])
qed

text \<open>
  C3. With \<open>0 < M < N\<close>, the regeneration of \<^verbatim>\<open>randomInt32\<close>, written as two loops
  over the index ranges from 0 to \<open>N - M - 1\<close> and from \<open>N - M\<close> to \<open>N - 2\<close> and a
  last assignment at \<open>N - 1\<close>, turns every state vector into the vector the single
  formula with indices modulo \<open>N\<close> gives when applied at 0, 1, ..., \<open>N - 1\<close> in turn;
  it leaves the state index at 0.
\<close>

theorem regenerate_refines_spec:
  assumes "0 < mt_M g" and "mt_M g < mt_N g"
  shows "mt_stateVector (regenerate g) = spec_regenerate g (mt_stateVector g) \<and>
         mt_stateIndex (regenerate g) = 0"
  by (simp add: regenerate_eq_spec [OF assms])

theorem regenerate_refines_spec_witness:
  "mt_stateVector (regenerate (initWithNumber small_generator 5)) =
     spec_regenerate (initWithNumber small_generator 5)
       (mt_stateVector (initWithNumber small_generator 5)) \<and>
   mt_stateIndex (regenerate (initWithNumber small_generator 5)) = 0"
proof -
  have "0 < mt_M (initWithNumber small_generator 5)"
    and "mt_M (initWithNumber small_generator 5) < mt_N (initWithNumber small_generator 5)"
    by (simp_all add: initWithNumber_config small_generator_def)
  then show ?thesis
    by (rule regenerate_refines_spec)
qed

section \<open>The seed field does not enter the outputs\<close>

lemma twist_loop1_unfold:
  "kk < mt_N g - mt_M g \<Longrightarrow>
   twist_loop1 g v kk = twist_loop1 g (twist_at g v kk (kk + 1) (kk + mt_M g)) (kk + 1)"
  by (subst twist_loop1.simps) simp

lemma twist_loop1_stop:
  "\<not> kk < mt_N g - mt_M g \<Longrightarrow> twist_loop1 g v kk = (v, kk)"
  by (subst twist_loop1.simps) simp

lemma twist_loop2_unfold:
  "kk < mt_N g - 1 \<Longrightarrow>
   twist_loop2 g v kk = twist_loop2 g (twist_at g v kk (kk + 1) (kk + (mt_M g - mt_N g))) (kk + 1)"
  by (subst twist_loop2.simps) simp

lemma twist_loop2_stop:
  "\<not> kk < mt_N g - 1 \<Longrightarrow> twist_loop2 g v kk = (v, kk)"
  by (subst twist_loop2.simps) simp

lemma twist_at_seed: "twist_at (g\<lparr>mt_seed := x\<rparr>) = twist_at g"
  by (rule ext)+ (simp add: twist_at_def)

lemma twist_loop1_seed: "twist_loop1 (g\<lparr>mt_seed := x\<rparr>) v kk = twist_loop1 g v kk"
proof (induction g v kk rule: twist_loop1.induct)
  case (1 g v kk)
  show ?case
  proof (cases "kk < mt_N g - mt_M g")
    case True
    define v' where "v' = twist_at g v kk (kk + 1) (kk + mt_M g)"
    from True have "twist_loop1 (g\<lparr>mt_seed := x\<rparr>) v kk = twist_loop1 (g\<lparr>mt_seed := x\<rparr>) v' (kk + 1)"
      unfolding v'_def by (subst twist_loop1_unfold) (simp_all add: twist_at_seed)
    also have "\<dots> = twist_loop1 g v' (kk + 1)"
      unfolding v'_def by (rule "1.IH" [OF True])
    also from True have "\<dots> = twist_loop1 g v kk"
      unfolding v'_def by (rule twist_loop1_unfold [symmetric])
    finally show ?thesis .
  next
    case False
    then show ?thesis by (simp add: twist_loop1_stop)
  qed
qed

lemma twist_loop2_seed: "twist_loop2 (g\<lparr>mt_seed := x\<rparr>) v kk = twist_loop2 g v kk"
proof (induction g v kk rule: twist_loop2.induct)
  case (1 g v kk)
  show ?case
  proof (cases "kk < mt_N g - 1")
    case True
    define v' where "v' = twist_at g v kk (kk + 1) (kk + (mt_M g - mt_N g))"
    from True have "twist_loop2 (g\<lparr>mt_seed := x\<rparr>) v kk = twist_loop2 (g\<lparr>mt_seed := x\<rparr>) v' (kk + 1)"
      unfolding v'_def by (subst twist_loop2_unfold) (simp_all add: twist_at_seed)
    also have "\<dots> = twist_loop2 g v' (kk + 1)"
      unfolding v'_def by (rule "1.IH" [OF True])
    also from True have "\<dots> = twist_loop2 g v kk"
      unfolding v'_def by (rule twist_loop2_unfold [symmetric])
    finally show ?thesis .
  next
    case False
    then show ?thesis by (simp add: twist_loop2_stop)
  qed
qed

lemma regenerate_seed: "regenerate (g\<lparr>mt_seed := x\<rparr>) = (regenerate g)\<lparr>mt_seed := x\<rparr>"
  by (simp add: regenerate_def twist_loop1_seed twist_loop2_seed twist_at_seed
      case_prod_beta Let_def)

lemma randomInt32_seed:
  "randomInt32 (g\<lparr>mt_seed := x\<rparr>) = (fst (randomInt32 g), (snd (randomInt32 g))\<lparr>mt_seed := x\<rparr>)"
  by (simp add: randomInt32_def regenerate_seed Let_def)

lemma call_seed:
  "call f (g\<lparr>mt_seed := x\<rparr>) = (fst (call f g), (snd (call f g))\<lparr>mt_seed := x\<rparr>)"
  by (cases f)
     (simp_all add: randomInt31_def randomFloat1_def randomFloat2_def randomFloat3_def
        randomFloatRes53_def randomInt32_seed case_prod_beta Let_def)

lemma draws_seed:
  "draws fs (g\<lparr>mt_seed := x\<rparr>) = (fst (draws fs g), (snd (draws fs g))\<lparr>mt_seed := x\<rparr>)"
proof (induction fs arbitrary: g)
  case Nil
  show ?case by simp
next
  case (Cons f fs)
  show ?case
    by (simp add: call_seed Cons.IH case_prod_beta Let_def)
qed

lemma initWithNumber_seed:
  "initWithNumber (g\<lparr>mt_seed := x\<rparr>) s = (initWithNumber g s)\<lparr>mt_seed := x\<rparr>"
  by (simp add: initWithNumber_eq)

lemma initWithNumber_cong:
  "(word_of_int s :: u32) = word_of_int t \<Longrightarrow> initWithNumber g s = initWithNumber g t"
  by (simp add: initWithNumber_eq)

text \<open>
  C10. A scalar seed counts modulo \<open>2^32\<close>. For two integers \<open>s\<close> and \<open>t\<close> with the
  same \<^verbatim>\<open>>>> 0\<close>, and the same second argument of the constructor: either both
  constructions throw the \<^verbatim>\<open>RangeError\<close> of an invalid state length, or both return a
  generator, every sequence of calls of the output functions returns the same results
  on the two, and the seed read from the first is \<open>s\<close> and from the second \<open>t\<close>.
\<close>

theorem scalar_seed_modulo:
  assumes "(word_of_int s :: u32) = word_of_int t"
  shows "(MT19937_new (Num s) arg2 ambient = Some (Inl RangeError) \<and>
          MT19937_new (Num t) arg2 ambient = Some (Inl RangeError)) \<or>
         (\<exists>g1 g2. MT19937_new (Num s) arg2 ambient = Some (Inr g1) \<and>
                  MT19937_new (Num t) arg2 ambient = Some (Inr g2) \<and>
                  (\<forall>fs. fst (draws fs g1) = fst (draws fs g2)) \<and>
                  get_seed g1 = Some (SeedNumber s) \<and> get_seed g2 = Some (SeedNumber t))"
proof -
  define n where "n = option_or (non_null_object arg2) stateLength STATE_LENGTH"
  define g0 where "g0 = fresh n (option_or (non_null_object arg2) statePeriod STATE_PERIOD)
                    (option_or (non_null_object arg2) matrixA MATRIX_A)
                    (option_or (non_null_object arg2) upperMask UPPER_MASK)
                    (option_or (non_null_object arg2) lowerMask LOWER_MASK)"
  have new: "MT19937_new (Num x) arg2 ambient =
      (if n < 0 \<or> 2 ^ 32 \<le> n then Some (Inl RangeError)
       else Some (Inr ((initWithNumber g0 x)\<lparr>mt_seed := Some (SeedNumber x)\<rparr>)))" for x
    by (simp add: MT19937_new_Num Let_def n_def g0_def initWithNumber_seed)
  show ?thesis
  proof (cases "n < 0 \<or> 2 ^ 32 \<le> n")
    case True
    then show ?thesis by (simp add: new)
  next
    case False
    have "fst (draws fs ((initWithNumber g0 s)\<lparr>mt_seed := Some (SeedNumber s)\<rparr>)) =
          fst (draws fs ((initWithNumber g0 t)\<lparr>mt_seed := Some (SeedNumber t)\<rparr>))" for fs
      by (simp add: draws_seed initWithNumber_cong [OF assms])
    with False show ?thesis
      by (simp add: new get_seed_def)
  qed
qed

theorem scalar_seed_modulo_witness:
  "\<exists>g1 g2. MT19937_new (Num (- 1)) Undefined 0 = Some (Inr g1) \<and>
           MT19937_new (Num 4294967295) Undefined 0 = Some (Inr g2) \<and>
           (\<forall>fs. fst (draws fs g1) = fst (draws fs g2)) \<and>
           get_seed g1 = Some (SeedNumber (- 1)) \<and> get_seed g2 = Some (SeedNumber 4294967295)"
proof -
  have w: "(word_of_int (- 1) :: u32) = word_of_int 4294967295"
    by simp
  have r: "MT19937_new (Num (- 1)) Undefined 0 \<noteq> Some (Inl RangeError)"
    by (simp add: MT19937_new_Num non_null_object_def option_or_def Let_def STATE_LENGTH_def)
  from scalar_seed_modulo [OF w, of Undefined 0] r show ?thesis
    by blast
qed

section \<open>Outputs depend on the state words only\<close>

lemma agree_rd: "agree n v v' \<Longrightarrow> 0 \<le> i \<Longrightarrow> i < n \<Longrightarrow> rd v i = rd v' i"
  by (simp add: agree_def rd_def)

lemma agree_upd: "agree n v v' \<Longrightarrow> agree n (v(i := x)) (v'(i := x))"
  by (simp add: agree_def)

lemma agree_copy:
  "agree n v v' \<Longrightarrow> 0 \<le> k \<Longrightarrow> k < n \<Longrightarrow> agree n (v(i := v k)) (v'(i := v' k))"
  by (simp add: agree_def)

lemma agree_refl: "agree n v v"
  by (simp add: agree_def)

lemma spec_twist_step_agree:
  assumes "agree (mt_N g) v v'" and "0 \<le> kk" and "kk < mt_N g"
    and "mt_N g' = mt_N g" and "mt_M g' = mt_M g" and "mt_MATRIX_A g' = mt_MATRIX_A g"
    and "mt_UPPER_MASK g' = mt_UPPER_MASK g" and "mt_LOWER_MASK g' = mt_LOWER_MASK g"
  shows "agree (mt_N g) (spec_twist_step g kk v) (spec_twist_step g' kk v')"
proof -
  from assms(2,3) have n: "0 < mt_N g" by simp
  have a: "rd v kk = rd v' kk"
    using assms(1-3) by (rule agree_rd)
  have b: "rd v ((kk + 1) mod mt_N g) = rd v' ((kk + 1) mod mt_N g)"
    using assms(1) pos_mod_sign [OF n] pos_mod_bound [OF n] by (rule agree_rd)
  have c: "rd v ((kk + mt_M g) mod mt_N g) = rd v' ((kk + mt_M g) mod mt_N g)"
    using assms(1) pos_mod_sign [OF n] pos_mod_bound [OF n] by (rule agree_rd)
  show ?thesis
    unfolding spec_twist_step_def Let_def assms(4-8) a b c
    using assms(1) by (rule agree_upd)
qed

lemma spec_fold_agree:
  assumes "mt_N g' = mt_N g" and "mt_M g' = mt_M g" and "mt_MATRIX_A g' = mt_MATRIX_A g"
    and "mt_UPPER_MASK g' = mt_UPPER_MASK g" and "mt_LOWER_MASK g' = mt_LOWER_MASK g"
  shows "\<forall>k \<in> set ks. 0 \<le> k \<and> k < mt_N g \<Longrightarrow> agree (mt_N g) v v' \<Longrightarrow>
         agree (mt_N g) (fold (spec_twist_step g) ks v) (fold (spec_twist_step g') ks v')"
proof (induction ks arbitrary: v v')
  case Nil
  then show ?case by simp
next
  case (Cons k ks)
  from Cons.prems have "agree (mt_N g) (spec_twist_step g k v) (spec_twist_step g' k v')"
    using assms by (intro spec_twist_step_agree) simp_all
  with Cons.prems Cons.IH show ?case
    by simp
qed

lemma regenerate_config:
  "mt_N (regenerate g) = mt_N g" "mt_M (regenerate g) = mt_M g"
  "mt_MATRIX_A (regenerate g) = mt_MATRIX_A g" "mt_UPPER_MASK (regenerate g) = mt_UPPER_MASK g"
  "mt_LOWER_MASK (regenerate g) = mt_LOWER_MASK g" "mt_seed (regenerate g) = mt_seed g"
  "mt_stateIndex (regenerate g) = 0"
  by (simp_all add: regenerate_def case_prod_beta Let_def)

lemma regenerate_same_words:
  assumes "same_words g g'" and "0 < mt_M g" and "mt_M g < mt_N g"
  shows "same_words (regenerate g) (regenerate g')"
proof -
  from assms(1) have cfg: "mt_N g' = mt_N g" "mt_M g' = mt_M g" "mt_MATRIX_A g' = mt_MATRIX_A g"
      "mt_UPPER_MASK g' = mt_UPPER_MASK g" "mt_LOWER_MASK g' = mt_LOWER_MASK g"
    and ag: "agree (mt_N g) (mt_stateVector g) (mt_stateVector g')"
    by (simp_all add: same_words_def)
  have "agree (mt_N g) (spec_regenerate g (mt_stateVector g)) (spec_regenerate g' (mt_stateVector g'))"
    unfolding spec_regenerate_def cfg using cfg ag by (intro spec_fold_agree) simp_all
  moreover from assms(2,3) cfg have "0 < mt_M g'" "mt_M g' < mt_N g'"
    by simp_all
  ultimately show ?thesis
    by (simp add: same_words_def regenerate_eq_spec assms(2,3) cfg)
qed

lemma randomInt32_config:
  "mt_N (snd (randomInt32 g)) = mt_N g" "mt_M (snd (randomInt32 g)) = mt_M g"
  "mt_MATRIX_A (snd (randomInt32 g)) = mt_MATRIX_A g"
  "mt_UPPER_MASK (snd (randomInt32 g)) = mt_UPPER_MASK g"
  "mt_LOWER_MASK (snd (randomInt32 g)) = mt_LOWER_MASK g"
  "mt_seed (snd (randomInt32 g)) = mt_seed g"
  "mt_stateIndex (snd (randomInt32 g)) = (if mt_stateIndex g \<ge> mt_N g then 1 else mt_stateIndex g + 1)"
  by (simp_all add: randomInt32_def regenerate_config Let_def)

lemma randomInt32_same_words:
  assumes "same_words g g'" and "0 < mt_M g" and "mt_M g < mt_N g" and "0 \<le> mt_stateIndex g"
  shows "fst (randomInt32 g) = fst (randomInt32 g') \<and>
         same_words (snd (randomInt32 g)) (snd (randomInt32 g'))"
proof -
  define g1 where "g1 = (if mt_stateIndex g \<ge> mt_N g then regenerate g else g)"
  define g1' where "g1' = (if mt_stateIndex g' \<ge> mt_N g' then regenerate g' else g')"
  from assms(1) have idx: "mt_stateIndex g' = mt_stateIndex g" and n: "mt_N g' = mt_N g"
    by (simp_all add: same_words_def)
  have s1: "same_words g1 g1'"
    unfolding g1_def g1'_def idx n using assms(1-3) by (simp add: regenerate_same_words)
  have r: "0 \<le> mt_stateIndex g1 \<and> mt_stateIndex g1 < mt_N g1"
    unfolding g1_def using assms(2-4) by (simp add: regenerate_config)
  from s1 have ag1: "agree (mt_N g1) (mt_stateVector g1) (mt_stateVector g1')"
    and i1: "mt_stateIndex g1' = mt_stateIndex g1"
    by (simp_all add: same_words_def)
  from r have "rd (mt_stateVector g1) (mt_stateIndex g1) = rd (mt_stateVector g1') (mt_stateIndex g1')"
    unfolding i1 by (intro agree_rd [OF ag1]) simp_all
  moreover have "randomInt32 g = (uint (tempering (rd (mt_stateVector g1) (mt_stateIndex g1))),
      g1\<lparr>mt_stateIndex := mt_stateIndex g1 + 1\<rparr>)"
    by (simp add: randomInt32_def g1_def Let_def)
  moreover have "randomInt32 g' = (uint (tempering (rd (mt_stateVector g1') (mt_stateIndex g1'))),
      g1'\<lparr>mt_stateIndex := mt_stateIndex g1' + 1\<rparr>)"
    by (simp add: randomInt32_def g1'_def Let_def)
  ultimately show ?thesis
    using s1 by (simp add: same_words_def)
qed

lemma call_config:
  "same_config g (snd (call f g))"
  by (cases f)
     (simp_all add: same_config_def randomInt31_def randomFloat1_def randomFloat2_def
        randomFloat3_def randomFloatRes53_def randomInt32_config case_prod_beta Let_def)

lemma call_index:
  assumes "0 \<le> mt_stateIndex g" and "mt_stateIndex g \<le> mt_N g" and "1 \<le> mt_N g"
  shows "1 \<le> mt_stateIndex (snd (call f g)) \<and> mt_stateIndex (snd (call f g)) \<le> mt_N g"
  using assms
  by (cases f)
     (simp_all add: randomInt31_def randomFloat1_def randomFloat2_def
        randomFloat3_def randomFloatRes53_def randomInt32_config case_prod_beta Let_def)

lemma call_index_nonneg:
  assumes "0 \<le> mt_stateIndex g"
  shows "0 \<le> mt_stateIndex (snd (call f g))"
  using assms
  by (cases f)
     (simp_all add: randomInt31_def randomFloat1_def randomFloat2_def
        randomFloat3_def randomFloatRes53_def randomInt32_config case_prod_beta Let_def)

lemma same_words_config:
  "same_words g g' \<Longrightarrow> mt_M g' = mt_M g \<and> mt_N g' = mt_N g \<and> mt_stateIndex g' = mt_stateIndex g"
  by (simp add: same_words_def)

lemma call_same_words:
  assumes "same_words g g'" and "0 < mt_M g" and "mt_M g < mt_N g" and "0 \<le> mt_stateIndex g"
  shows "fst (call f g) = fst (call f g') \<and> same_words (snd (call f g)) (snd (call f g'))"
proof -
  note one = randomInt32_same_words [OF assms]
  define h where "h = snd (randomInt32 g)"
  define h' where "h' = snd (randomInt32 g')"
  from one have hh: "same_words h h'"
    by (simp add: h_def h'_def)
  have "0 < mt_M h" and "mt_M h < mt_N h" and "0 \<le> mt_stateIndex h"
    using assms(2-4) by (simp_all add: h_def randomInt32_config)
  note two = randomInt32_same_words [OF hh this]
  show ?thesis
  proof (cases f)
    case RandomFloatRes53
    with one two show ?thesis
      by (simp add: randomFloatRes53_def case_prod_beta Let_def h_def h'_def)
  qed (use one in \<open>simp_all add: randomInt31_def randomFloat1_def randomFloat2_def
        randomFloat3_def case_prod_beta Let_def\<close>)
qed

lemma draws_same_words:
  "same_words g g' \<Longrightarrow> 0 < mt_M g \<Longrightarrow> mt_M g < mt_N g \<Longrightarrow> 0 \<le> mt_stateIndex g \<Longrightarrow>
   fst (draws fs g) = fst (draws fs g') \<and> same_words (snd (draws fs g)) (snd (draws fs g'))"
proof (induction fs arbitrary: g g')
  case Nil
  then show ?case by simp
next
  case (Cons f fs)
  define h where "h = snd (call f g)"
  define h' where "h' = snd (call f g')"
  from call_same_words [OF Cons.prems, of f]
  have x: "fst (call f g) = fst (call f g')" and hh: "same_words h h'"
    by (simp_all add: h_def h'_def)
  from call_config [of g f] Cons.prems(2,3) have "0 < mt_M h" and "mt_M h < mt_N h"
    by (simp_all add: h_def same_config_def)
  moreover from call_index_nonneg [OF Cons.prems(4), of f] have "0 \<le> mt_stateIndex h"
    by (simp add: h_def)
  ultimately have "fst (draws fs h) = fst (draws fs h') \<and>
      same_words (snd (draws fs h)) (snd (draws fs h'))"
    using hh by (intro Cons.IH)
  with x show ?case
    by (simp add: case_prod_beta Let_def h_def h'_def)
qed

lemma draws_config: "same_config g (snd (draws fs g))"
proof (induction fs arbitrary: g)
  case Nil
  show ?case by (simp add: same_config_def)
next
  case (Cons f fs)
  from call_config [of g f] Cons.IH [of "snd (call f g)"] show ?case
    by (simp add: case_prod_beta Let_def same_config_def)
qed

section \<open>Seeding determines the state words\<close>

lemma initWithNumber_agree:
  assumes "mt_N g' = mt_N g"
  shows "agree (mt_N g) (mt_stateVector (initWithNumber g s)) (mt_stateVector (initWithNumber g' s))"
proof -
  let ?v = "mt_stateVector (initWithNumber g s)"
  let ?v' = "mt_stateVector (initWithNumber g' s)"
  have "i < mt_N g \<longrightarrow> ?v i = ?v' i" if "0 \<le> i" for i
    using that
  proof (induction i rule: int_ge_induct)
    case base
    show ?case by (simp add: initWithNumber_first)
  next
    case (step i)
    show ?case
    proof
      assume lt: "i + 1 < mt_N g"
      with step.IH have "rd ?v i = rd ?v' i"
        by (simp add: rd_def)
      moreover from step.hyps lt have "?v (i + 1) =
          Some (word_of_int (mulSplit16 1812433253 (rd ?v (i + 1 - 1) XOR drop_bit 30 (rd ?v (i + 1 - 1))) + (i + 1)))"
        by (intro initWithNumber_word) simp_all
      moreover from step.hyps lt assms have "?v' (i + 1) =
          Some (word_of_int (mulSplit16 1812433253 (rd ?v' (i + 1 - 1) XOR drop_bit 30 (rd ?v' (i + 1 - 1))) + (i + 1)))"
        by (intro initWithNumber_word) simp_all
      ultimately show "?v (i + 1) = ?v' (i + 1)"
        by simp
    qed
  qed
  then show ?thesis
    by (simp add: agree_def)
qed

lemma mix_step_related:
  assumes "mix_related n st st'"
  shows "mix_related n (mix_step n initKey st) (mix_step n initKey st')"
proof -
  obtain v i j where st: "st = (v, i, j)" by (cases st)
  with assms obtain v' where st': "st' = (v', i, j)"
    by (cases st') (simp add: mix_related_def)
  from assms have ag: "agree n v v'" and i: "1 \<le> i" "i < n"
    by (simp_all add: mix_related_def st st')
  from i have a: "rd v (i - 1) = rd v' (i - 1)"
    by (intro agree_rd [OF ag]) simp_all
  from i have b: "rd v i = rd v' i"
    by (intro agree_rd [OF ag]) simp_all
  define w :: u32 where "w = (case js_index initKey j of None \<Rightarrow> 0
     | Some kj \<Rightarrow> word_of_int (sint (rd v' i XOR word_of_int (mulSplit16 1664525
         (rd v' (i - 1) XOR drop_bit 30 (rd v' (i - 1))))) + kj + j))"
  have ag1: "agree n (v(i := Some w)) (v'(i := Some w))"
    using ag by (rule agree_upd)
  from i have ag2: "agree n ((v(i := Some w))(0 := (v(i := Some w)) (n - 1)))
                           ((v'(i := Some w))(0 := (v'(i := Some w)) (n - 1)))"
    by (intro agree_copy [OF ag1]) simp_all
  have l: "mix_step n initKey st = ((if i + 1 \<ge> n then (v(i := Some w))(0 := (v(i := Some w)) (n - 1)) else v(i := Some w)),
      (if i + 1 \<ge> n then 1 else i + 1), (if j + 1 \<ge> int (length initKey) then 0 else j + 1))"
    unfolding mix_step_def st Let_def prod.case a b w_def ..
  have r: "mix_step n initKey st' = ((if i + 1 \<ge> n then (v'(i := Some w))(0 := (v'(i := Some w)) (n - 1)) else v'(i := Some w)),
      (if i + 1 \<ge> n then 1 else i + 1), (if j + 1 \<ge> int (length initKey) then 0 else j + 1))"
    unfolding mix_step_def st' Let_def prod.case w_def ..
  from i ag1 ag2 show ?thesis
    unfolding l r mix_related_def by auto
qed

lemma decor_step_related:
  assumes "decor_related n st st'"
  shows "decor_related n (decor_step n st) (decor_step n st')"
proof -
  obtain v i where st: "st = (v, i)" by (cases st)
  with assms obtain v' where st': "st' = (v', i)"
    by (cases st') (simp add: decor_related_def)
  from assms have ag: "agree n v v'" and i: "1 \<le> i" "i < n"
    by (simp_all add: decor_related_def st st')
  from i have a: "rd v (i - 1) = rd v' (i - 1)"
    by (intro agree_rd [OF ag]) simp_all
  from i have b: "rd v i = rd v' i"
    by (intro agree_rd [OF ag]) simp_all
  define w :: u32 where "w = word_of_int (sint (rd v' i XOR word_of_int (mulSplit16 1566083941
         (rd v' (i - 1) XOR drop_bit 30 (rd v' (i - 1))))) - i)"
  have ag1: "agree n (v(i := Some w)) (v'(i := Some w))"
    using ag by (rule agree_upd)
  from i have ag2: "agree n ((v(i := Some w))(0 := (v(i := Some w)) (n - 1)))
                           ((v'(i := Some w))(0 := (v'(i := Some w)) (n - 1)))"
    by (intro agree_copy [OF ag1]) simp_all
  have l: "decor_step n st = ((if i + 1 \<ge> n then (v(i := Some w))(0 := (v(i := Some w)) (n - 1)) else v(i := Some w)),
      (if i + 1 \<ge> n then 1 else i + 1))"
    unfolding decor_step_def st Let_def prod.case a b w_def ..
  have r: "decor_step n st' = ((if i + 1 \<ge> n then (v'(i := Some w))(0 := (v'(i := Some w)) (n - 1)) else v'(i := Some w)),
      (if i + 1 \<ge> n then 1 else i + 1))"
    unfolding decor_step_def st' Let_def prod.case w_def ..
  from i ag1 ag2 show ?thesis
    unfolding l r decor_related_def by auto
qed

lemma mix_funpow_related:
  "mix_related n st st' \<Longrightarrow>
   mix_related n ((mix_step n initKey ^^ k) st) ((mix_step n initKey ^^ k) st')"
  by (induction k) (simp_all add: mix_step_related)

lemma decor_funpow_related:
  "decor_related n st st' \<Longrightarrow>
   decor_related n ((decor_step n ^^ k) st) ((decor_step n ^^ k) st')"
  by (induction k) (simp_all add: decor_step_related)

lemma array_passes_agree:
  assumes "agree n v v'" and "2 \<le> n"
  shows "agree n (fst (array_passes n initKey v)) (fst (array_passes n initKey v'))"
proof -
  define k where "k = nat (max n (int (length initKey)))"
  define m where "m = (mix_step n initKey ^^ k) (v, 1, 0)"
  define m' where "m' = (mix_step n initKey ^^ k) (v', 1, 0)"
  from assms have "mix_related n (v, 1, 0) (v', 1, 0)"
    by (simp add: mix_related_def)
  then have "mix_related n m m'"
    unfolding m_def m'_def by (rule mix_funpow_related)
  then have "decor_related n (fst m, fst (snd m)) (fst m', fst (snd m'))"
    by (simp add: mix_related_def decor_related_def)
  then have "decor_related n ((decor_step n ^^ nat (n - 1)) (fst m, fst (snd m)))
                            ((decor_step n ^^ nat (n - 1)) (fst m', fst (snd m')))"
    by (rule decor_funpow_related)
  then show ?thesis
    by (simp add: array_passes_def case_prod_beta k_def m_def m'_def decor_related_def)
qed

lemma set_seed_same_words:
  assumes "same_config g g'" and "2 \<le> mt_N g"
  shows "\<exists>h h'. set_seed g seed = Some h \<and> set_seed g' seed = Some h' \<and> same_words h h' \<and>
                same_config g h \<and> mt_stateIndex h = mt_N g"
proof -
  from assms have cfg: "mt_N g' = mt_N g" "mt_M g' = mt_M g" "mt_MATRIX_A g' = mt_MATRIX_A g"
      "mt_UPPER_MASK g' = mt_UPPER_MASK g" "mt_LOWER_MASK g' = mt_LOWER_MASK g"
    by (simp_all add: same_config_def)
  show ?thesis
  proof (cases seed)
    case (SeedNumber s)
    have "agree (mt_N g) (mt_stateVector (initWithNumber (g\<lparr>mt_seed := Some (SeedNumber s)\<rparr>) s))
            (mt_stateVector (initWithNumber (g'\<lparr>mt_seed := Some (SeedNumber s)\<rparr>) s))"
      using initWithNumber_agree [of "g'\<lparr>mt_seed := Some (SeedNumber s)\<rparr>" "g\<lparr>mt_seed := Some (SeedNumber s)\<rparr>" s] cfg
      by simp
    with assms(2) show ?thesis
      by (simp add: SeedNumber set_seed_number same_words_def same_config_def cfg
          initWithNumber_config initWithNumber_index)
  next
    case (SeedArray ks)
    let ?g = "g\<lparr>mt_seed := Some (SeedArray ks)\<rparr>"
    let ?g' = "g'\<lparr>mt_seed := Some (SeedArray ks)\<rparr>"
    let ?v = "mt_stateVector (initWithNumber ?g MAGIC_SEED)"
    let ?v' = "mt_stateVector (initWithNumber ?g' MAGIC_SEED)"
    have "agree (mt_N g) ?v ?v'"
      using initWithNumber_agree [of ?g' ?g MAGIC_SEED] cfg by simp
    from array_passes_agree [OF this assms(2), of ks]
    have "agree (mt_N g) ((fst (array_passes (mt_N g) ks ?v))(0 := Some 0x80000000))
                         ((fst (array_passes (mt_N g) ks ?v'))(0 := Some 0x80000000))"
      by (rule agree_upd)
    moreover from assms(2) cfg have "1 \<le> mt_N ?g" and "1 \<le> mt_N ?g'"
      by simp_all
    ultimately show ?thesis
      using assms(2)
      by (simp add: SeedArray set_seed_def init_def initWithArray_eq same_words_def
          same_config_def cfg initWithNumber_config initWithNumber_index)
  qed
qed

section \<open>Reseeding and the state index\<close>

lemma same_config_refl: "same_config g g"
  by (simp add: same_config_def)

lemma same_words_refl: "same_words g g"
  by (simp add: same_words_def agree_refl)

text \<open>
  C6. Assigning the seed discards the prior state. For a generator with \<open>0 < M < N\<close> in
  any state, any seed \<open>s\<close>, scalar or array, and any sequence \<open>fs\<close> of calls of the output
  functions: assigning \<open>s\<close> returns a generator \<open>g1\<close>; assigning \<open>s\<close> again after the
  calls \<open>fs\<close> on \<open>g1\<close> returns a generator \<open>g3\<close>; and the calls \<open>fs\<close> return on \<open>g3\<close>
  the results they returned on \<open>g1\<close>.
\<close>

theorem reseed_resets:
  assumes "0 < mt_M g" and "mt_M g < mt_N g"
  shows "\<exists>g1 g3. set_seed g s = Some g1 \<and> set_seed (snd (draws fs g1)) s = Some g3 \<and>
                 fst (draws fs g3) = fst (draws fs g1)"
proof -
  from assms have n: "2 \<le> mt_N g" by simp
  from set_seed_same_words [OF same_config_refl n, of s]
  obtain g1 where g1: "set_seed g s = Some g1" and c1: "same_config g g1"
    and i1: "mt_stateIndex g1 = mt_N g"
    by blast
  define g2 where "g2 = snd (draws fs g1)"
  from c1 draws_config [of g1 fs] have "same_config g g2"
    by (simp add: same_config_def g2_def)
  from set_seed_same_words [OF this n, of s] g1
  obtain g3 where g3: "set_seed g2 s = Some g3" and w: "same_words g1 g3"
    by auto
  from c1 assms i1 have "0 < mt_M g1" and "mt_M g1 < mt_N g1" and "0 \<le> mt_stateIndex g1"
    by (simp_all add: same_config_def)
  from draws_same_words [OF w this, of fs] have "fst (draws fs g3) = fst (draws fs g1)"
    by simp
  with g1 g3 show ?thesis
    by (simp add: g2_def)
qed

theorem reseed_resets_witness:
  "\<exists>g1 g3. set_seed small_generator (SeedArray [7]) = Some g1 \<and>
           set_seed (snd (draws [RandomInt32, RandomFloatRes53] g1)) (SeedArray [7]) = Some g3 \<and>
           fst (draws [RandomInt32, RandomFloatRes53] g3) = fst (draws [RandomInt32, RandomFloatRes53] g1)"
proof -
  have "0 < mt_M small_generator" and "mt_M small_generator < mt_N small_generator"
    by (simp_all add: small_generator_def)
  then show ?thesis
    by (rule reseed_resets)
qed

lemma init_Some:
  assumes "init g seed = Some g'"
  shows "mt_stateIndex g' = (if 1 < mt_N g then mt_N g else 1) \<and> same_config g g' \<and>
         mt_seed g' = Some seed"
  using assms
  by (cases seed)
     (auto simp: init_def initWithArray_def Let_def initWithNumber_config initWithNumber_index
        same_config_def split: option.splits prod.splits)

lemma MT19937_new_Some:
  assumes "MT19937_new arg1 arg2 ambient = Some (Inr g)"
  shows "mt_stateIndex g = (if 1 < mt_N g then mt_N g else 1)"
proof -
  from assms obtain g0 seed where "init g0 seed = Some g"
    by (auto simp: MT19937_new_def Let_def split: if_splits)
  from init_Some [OF this] show ?thesis
    by (simp add: same_config_def)
qed

lemma reachable_index:
  "reachable g \<Longrightarrow> 1 \<le> mt_N g \<longrightarrow> 0 \<le> mt_stateIndex g \<and> mt_stateIndex g \<le> mt_N g"
proof (induction rule: reachable.induct)
  case (constructed arg1 arg2 ambient g)
  from MT19937_new_Some [OF this] show ?case
    by simp
next
  case (reseeded g seed g')
  from init_Some [OF reseeded.hyps(2) [unfolded set_seed_def]] show ?case
    by (simp add: same_config_def)
next
  case (drawn g f)
  show ?case
  proof
    assume "1 \<le> mt_N (snd (call f g))"
    with call_config [of g f] have n: "1 \<le> mt_N g" and e: "mt_N (snd (call f g)) = mt_N g"
      by (simp_all add: same_config_def)
    with drawn.IH have "0 \<le> mt_stateIndex g" and "mt_stateIndex g \<le> mt_N g"
      by simp_all
    from call_index [OF this n, of f] e
    show "0 \<le> mt_stateIndex (snd (call f g)) \<and> mt_stateIndex (snd (call f g)) \<le> mt_N (snd (call f g))"
      by simp
  qed
qed

text \<open>
  C9. For a reachable generator of at least one state word: the state index lies
  between 0 and \<open>N\<close>; it is \<open>N\<close> when the constructor has just returned the
  generator, and \<open>N\<close> after any assignment of the seed, which always returns; after a
  call of any output function it lies between 1 and \<open>N\<close>; and the index
  \<^verbatim>\<open>randomInt32\<close> reads its word at, after the regeneration that an index of \<open>N\<close> or
  more causes, lies between 0 and \<open>N - 1\<close>. With \<open>0 < M < N\<close> moreover, the result of
  \<^verbatim>\<open>randomInt32\<close> and the \<open>N\<close> state words it leaves are the same for any generator that
  has the same \<open>N\<close> state words, whatever its array holds at other indices.
\<close>

theorem state_index_range:
  assumes "reachable g" and "1 \<le> mt_N g"
  shows "0 \<le> mt_stateIndex g \<and> mt_stateIndex g \<le> mt_N g \<and>
         (\<forall>arg1 arg2 ambient. MT19937_new arg1 arg2 ambient = Some (Inr g) \<longrightarrow>
            mt_stateIndex g = mt_N g) \<and>
         (\<forall>seed. \<exists>g'. set_seed g seed = Some g' \<and> mt_stateIndex g' = mt_N g' \<and> mt_N g' = mt_N g) \<and>
         (\<forall>f. 1 \<le> mt_stateIndex (snd (call f g)) \<and> mt_stateIndex (snd (call f g)) \<le> mt_N g \<and>
              mt_N (snd (call f g)) = mt_N g) \<and>
         0 \<le> mt_stateIndex (if mt_stateIndex g \<ge> mt_N g then regenerate g else g) \<and>
         mt_stateIndex (if mt_stateIndex g \<ge> mt_N g then regenerate g else g) \<le> mt_N g - 1 \<and>
         (0 < mt_M g \<and> mt_M g < mt_N g \<longrightarrow>
            (\<forall>g'. same_words g g' \<longrightarrow>
               fst (randomInt32 g') = fst (randomInt32 g) \<and>
               same_words (snd (randomInt32 g)) (snd (randomInt32 g'))))"
proof -
  note n = assms(2)
  from reachable_index [OF assms(1)] n
  have r: "0 \<le> mt_stateIndex g" "mt_stateIndex g \<le> mt_N g"
    by simp_all
  have a: "mt_stateIndex g = mt_N g" if "MT19937_new arg1 arg2 ambient = Some (Inr g)"
    for arg1 arg2 ambient
    using MT19937_new_Some [OF that] n by simp
  have b: "\<exists>g'. set_seed g seed = Some g' \<and> mt_stateIndex g' = mt_N g' \<and> mt_N g' = mt_N g" for seed
    using set_seed_returns [OF n, of seed] by auto
  have c: "1 \<le> mt_stateIndex (snd (call f g)) \<and> mt_stateIndex (snd (call f g)) \<le> mt_N g \<and>
              mt_N (snd (call f g)) = mt_N g" for f
    using call_index [OF r n, of f] call_config [of g f] by (simp add: same_config_def)
  have d: "0 \<le> mt_stateIndex (if mt_stateIndex g \<ge> mt_N g then regenerate g else g) \<and>
         mt_stateIndex (if mt_stateIndex g \<ge> mt_N g then regenerate g else g) \<le> mt_N g - 1"
    using r n by (simp add: regenerate_config)
  have e: "fst (randomInt32 g') = fst (randomInt32 g) \<and>
            same_words (snd (randomInt32 g)) (snd (randomInt32 g'))"
    if "0 < mt_M g \<and> mt_M g < mt_N g" and "same_words g g'" for g'
  proof -
    from that(1) have "0 < mt_M g" and "mt_M g < mt_N g"
      by simp_all
    from randomInt32_same_words [OF that(2) this r(1)] show ?thesis
      by simp
  qed
  from r a b c d e show ?thesis
    by blast
qed

theorem state_index_range_witness:
  "reachable seeded_default \<and>
   0 \<le> mt_stateIndex seeded_default \<and> mt_stateIndex seeded_default \<le> mt_N seeded_default \<and>
   mt_stateIndex seeded_default = mt_N seeded_default \<and>
   (\<forall>seed. \<exists>g'. set_seed seeded_default seed = Some g' \<and> mt_stateIndex g' = mt_N g' \<and>
                 mt_N g' = mt_N seeded_default) \<and>
   (\<forall>f. 1 \<le> mt_stateIndex (snd (call f seeded_default)) \<and>
        mt_stateIndex (snd (call f seeded_default)) \<le> mt_N seeded_default \<and>
        mt_N (snd (call f seeded_default)) = mt_N seeded_default) \<and>
   same_words (snd (randomInt32 seeded_default)) (snd (randomInt32 seeded_default))"
proof -
  have new: "MT19937_new (Num 5) Undefined 0 = Some (Inr seeded_default)"
    by (simp add: MT19937_new_Num non_null_object_def option_or_def Let_def STATE_LENGTH_def
        seeded_default_def)
  then have r: "reachable seeded_default"
    by (rule reachable.constructed)
  have m: "0 < mt_M seeded_default" "mt_M seeded_default < mt_N seeded_default"
    by (simp_all add: seeded_default_def initWithNumber_config fresh_def STATE_LENGTH_def
        STATE_PERIOD_def)
  from m have "1 \<le> mt_N seeded_default"
    by simp
  note t = state_index_range [OF r this]
  from t new have "mt_stateIndex seeded_default = mt_N seeded_default"
    by blast
  moreover from t m same_words_refl [of seeded_default]
  have "same_words (snd (randomInt32 seeded_default)) (snd (randomInt32 seeded_default))"
    by blast
  ultimately show ?thesis
    using t r by simp
qed

section \<open>Array seeding and the reference\<close>

lemma holds_rd: "holds k v xs \<Longrightarrow> i < k \<Longrightarrow> rd v (int i) = xs ! i"
  by (simp add: holds_def rd_def)

lemma holds_upd:
  "holds k v xs \<Longrightarrow> k \<le> length xs \<Longrightarrow> holds k (v(int i := Some w)) (xs[i := w])"
  by (auto simp: holds_def nth_list_update)

lemma holds_copy:
  assumes "holds k v xs" and "j < k" and "k \<le> length xs"
  shows "holds k (v(0 := v (int j))) (xs[0 := xs ! j])"
proof -
  from assms(1,2) have "v (int j) = Some (xs ! j)"
    by (simp add: holds_def)
  with holds_upd [OF assms(1,3), of 0 "xs ! j"] show ?thesis
    by simp
qed

lemma holds_extend:
  assumes "holds idx v xs" and "idx < length xs"
  shows "holds (Suc idx) (v(int idx := Some w)) (xs[idx := w])"
  using assms by (auto simp: holds_def nth_list_update less_Suc_eq)

lemma init_next_holds:
  assumes "holds idx v xs" and "1 \<le> idx" and "idx < length xs"
  shows "holds (Suc idx) (init_next v (int idx))
     (xs[idx := 1812433253 * (xs ! (idx - 1) XOR drop_bit 30 (xs ! (idx - 1))) + of_nat idx])"
proof -
  from assms(2) have e: "int idx - 1 = int (idx - 1)"
    by simp
  from assms(2) have "idx - 1 < idx"
    by simp
  with assms(1) have r: "rd v (int idx - 1) = xs ! (idx - 1)"
    unfolding e by (rule holds_rd)
  have "init_next v (int idx) =
      v(int idx := Some (1812433253 * (xs ! (idx - 1) XOR drop_bit 30 (xs ! (idx - 1))) + of_nat idx))"
    unfolding init_next_def r by (simp add: mulSplit16_word)
  then show ?thesis
    using holds_extend [OF assms(1,3)] by simp
qed

lemma initWithNumber_loop_holds:
  "holds idx v xs \<Longrightarrow> length xs = n \<Longrightarrow> 1 \<le> idx \<Longrightarrow> idx \<le> n \<Longrightarrow> k = n - idx \<Longrightarrow>
   holds n (fst (initWithNumber_loop (int n) v (int idx)))
     (fold (\<lambda>mti mt. mt[mti := 1812433253 * (mt ! (mti - 1) XOR drop_bit 30 (mt ! (mti - 1)))
                              + of_nat mti]) [idx..<n] xs)"
proof (induction k arbitrary: v xs idx)
  case 0
  then have "\<not> int idx < int n" and "idx = n" by simp_all
  with 0 show ?case
    by (simp add: initWithNumber_loop_stop)
next
  case (Suc k)
  let ?f = "\<lambda>mti mt. mt[mti := 1812433253 * (mt ! (mti - 1) XOR drop_bit 30 (mt ! (mti - 1)))
                              + of_nat mti]"
  from Suc.prems have lt: "idx < n" by simp
  then have "int idx < int n" by simp
  then have u: "initWithNumber_loop (int n) v (int idx) =
      initWithNumber_loop (int n) (init_next v (int idx)) (int (Suc idx))"
    unfolding of_nat_Suc add.commute [of 1 "int idx"] by (rule initWithNumber_loop_unfold)
  from lt have l: "[idx..<n] = idx # [Suc idx..<n]"
    by (rule upt_conv_Cons)
  from Suc.prems lt have "holds (Suc idx) (init_next v (int idx)) (?f idx xs)"
    by (intro init_next_holds) simp_all
  moreover from Suc.prems have "length (?f idx xs) = n" and "1 \<le> Suc idx" and "Suc idx \<le> n"
      and "k = n - Suc idx"
    by simp_all
  ultimately have "holds n (fst (initWithNumber_loop (int n) (init_next v (int idx)) (int (Suc idx))))
     (fold ?f [Suc idx..<n] (?f idx xs))"
    by (rule Suc.IH)
  then show ?case
    unfolding u l by simp
qed

lemma initWithNumber_holds:
  assumes "mt_N g = int n" and "1 \<le> n"
  shows "holds n (mt_stateVector (initWithNumber g s)) (ref_init_genrand n (word_of_int s))"
proof -
  have "holds 1 ((mt_stateVector g)(0 := Some (word_of_int s))) ((replicate n 0)[0 := word_of_int s])"
    using assms(2) by (simp add: holds_def)
  then have "holds n (fst (initWithNumber_loop (int n) ((mt_stateVector g)(0 := Some (word_of_int s))) (int 1)))
     (fold (\<lambda>mti mt. mt[mti := 1812433253 * (mt ! (mti - 1) XOR drop_bit 30 (mt ! (mti - 1)))
                              + of_nat mti]) [1..<n] ((replicate n 0)[0 := word_of_int s]))"
    using assms(2) by (intro initWithNumber_loop_holds [where k = "n - 1"]) simp_all
  then show ?thesis
    by (simp add: initWithNumber_eq assms(1) ref_init_genrand_def)
qed

lemma ref_init_genrand_length: "length (ref_init_genrand n s) = n"
proof -
  have "length (fold (\<lambda>mti mt. mt[mti := 1812433253 * (mt ! (mti - 1) XOR drop_bit 30 (mt ! (mti - 1)))
                              + of_nat mti]) ks xs) = length xs" for ks and xs :: "u32 list"
    by (induction ks arbitrary: xs) simp_all
  then show ?thesis
    by (simp add: ref_init_genrand_def)
qed

lemma mix_word:
  "(word_of_int (sint (a XOR word_of_int (mulSplit16 1664525 s)) + uint kj + int j) :: u32)
     = (a XOR (s * 1664525)) + kj + of_nat j"
proof -
  have "(word_of_int (mulSplit16 1664525 s) :: u32) = s * 1664525"
    by (simp add: mulSplit16_word)
  then show ?thesis
    by simp
qed

lemma decor_word:
  "(word_of_int (sint (a XOR word_of_int (mulSplit16 1566083941 s)) - int i) :: u32)
     = (a XOR (s * 1566083941)) - of_nat i"
proof -
  have "(word_of_int (mulSplit16 1566083941 s) :: u32) = s * 1566083941"
    by (simp add: mulSplit16_word)
  then show ?thesis
    by simp
qed

lemma js_index_map_uint:
  "j < length init_key \<Longrightarrow> js_index (map uint init_key) (int j) = Some (uint (init_key ! j))"
  by (simp add: js_index_def)

lemma mix_step_sim:
  assumes "mix_sim n init_key st rs"
  shows "mix_sim n init_key (mix_step (int n) (map uint init_key) st) (ref_mix_step n init_key rs)"
proof -
  obtain v i j where st: "st = (v, i, j)" by (cases st)
  obtain xs i' j' where rs: "rs = (xs, i', j')" by (cases rs)
  from assms have h: "holds n v xs" and len: "length xs = n" and i: "i = int i'" and j: "j = int j'"
    and i1: "1 \<le> i'" and i2: "i' < n" and j2: "j' < length init_key"
    by (simp_all add: mix_sim_def st rs)
  from i1 have e: "int i' - 1 = int (i' - 1)"
    by simp
  from i2 have n1: "int n - 1 = int (n - 1)"
    by simp
  from i1 i2 have "i' - 1 < n"
    by simp
  with h have a: "rd v (int i' - 1) = xs ! (i' - 1)"
    unfolding e by (rule holds_rd)
  from h i2 have b: "rd v (int i') = xs ! i'"
    by (rule holds_rd)
  define w :: u32 where
    "w = (xs ! i' XOR ((xs ! (i' - 1) XOR drop_bit 30 (xs ! (i' - 1))) * 1664525))
           + init_key ! j' + of_nat j'"
  define v1 where "v1 = v(int i' := Some w)"
  define xs1 where "xs1 = xs[i' := w]"
  have h1: "holds n v1 xs1"
    unfolding v1_def xs1_def using h by (rule holds_upd) (simp add: len)
  have len1: "length xs1 = n"
    by (simp add: xs1_def len)
  from i2 have "n - 1 < n"
    by simp
  with h1 have h2: "holds n (v1(0 := v1 (int (n - 1)))) (xs1[0 := xs1 ! (n - 1)])"
    by (rule holds_copy) (simp add: len1)
  have c1: "(int i' + 1 \<ge> int n) = (i' + 1 \<ge> n)"
    by linarith
  have c2: "(int j' + 1 \<ge> int (length (map uint init_key))) = (j' + 1 \<ge> length init_key)"
    unfolding length_map by linarith
  have l: "mix_step (int n) (map uint init_key) st =
      ((if i' + 1 \<ge> n then v1(0 := v1 (int (n - 1))) else v1),
       (if i' + 1 \<ge> n then 1 else int i' + 1),
       (if j' + 1 \<ge> length init_key then 0 else int j' + 1))"
    unfolding mix_step_def st i j Let_def prod.case a b js_index_map_uint [OF j2] option.case
      mix_word c1 c2 n1 v1_def w_def ..
  have r: "ref_mix_step n init_key rs =
      ((if i' + 1 \<ge> n then xs1[0 := xs1 ! (n - 1)] else xs1),
       (if i' + 1 \<ge> n then 1 else i' + 1),
       (if j' + 1 \<ge> length init_key then 0 else j' + 1))"
    unfolding ref_mix_step_def rs Let_def prod.case xs1_def w_def ..
  from h1 h2 len1 i1 i2 j2 show ?thesis
    unfolding l r mix_sim_def by auto
qed

lemma decor_step_sim:
  assumes "decor_sim n st rs"
  shows "decor_sim n (decor_step (int n) st) (ref_decor_step n rs)"
proof -
  obtain v i where st: "st = (v, i)" by (cases st)
  obtain xs i' where rs: "rs = (xs, i')" by (cases rs)
  from assms have h: "holds n v xs" and len: "length xs = n" and i: "i = int i'"
    and i1: "1 \<le> i'" and i2: "i' < n"
    by (simp_all add: decor_sim_def st rs)
  from i1 have e: "int i' - 1 = int (i' - 1)"
    by simp
  from i2 have n1: "int n - 1 = int (n - 1)"
    by simp
  from i1 i2 have "i' - 1 < n"
    by simp
  with h have a: "rd v (int i' - 1) = xs ! (i' - 1)"
    unfolding e by (rule holds_rd)
  from h i2 have b: "rd v (int i') = xs ! i'"
    by (rule holds_rd)
  define w :: u32 where
    "w = (xs ! i' XOR ((xs ! (i' - 1) XOR drop_bit 30 (xs ! (i' - 1))) * 1566083941)) - of_nat i'"
  define v1 where "v1 = v(int i' := Some w)"
  define xs1 where "xs1 = xs[i' := w]"
  have h1: "holds n v1 xs1"
    unfolding v1_def xs1_def using h by (rule holds_upd) (simp add: len)
  have len1: "length xs1 = n"
    by (simp add: xs1_def len)
  from i2 have "n - 1 < n"
    by simp
  with h1 have h2: "holds n (v1(0 := v1 (int (n - 1)))) (xs1[0 := xs1 ! (n - 1)])"
    by (rule holds_copy) (simp add: len1)
  have c1: "(int i' + 1 \<ge> int n) = (i' + 1 \<ge> n)"
    by linarith
  have l: "decor_step (int n) st =
      ((if i' + 1 \<ge> n then v1(0 := v1 (int (n - 1))) else v1),
       (if i' + 1 \<ge> n then 1 else int i' + 1))"
    unfolding decor_step_def st i Let_def prod.case a b decor_word c1 n1 v1_def w_def ..
  have r: "ref_decor_step n rs =
      ((if i' + 1 \<ge> n then xs1[0 := xs1 ! (n - 1)] else xs1),
       (if i' + 1 \<ge> n then 1 else i' + 1))"
    unfolding ref_decor_step_def rs Let_def prod.case xs1_def w_def ..
  from h1 h2 len1 i1 i2 show ?thesis
    unfolding l r decor_sim_def by auto
qed

lemma mix_funpow_sim:
  "mix_sim n init_key st rs \<Longrightarrow>
   mix_sim n init_key ((mix_step (int n) (map uint init_key) ^^ k) st)
                      ((ref_mix_step n init_key ^^ k) rs)"
  by (induction k) (simp_all add: mix_step_sim)

lemma decor_funpow_sim:
  "decor_sim n st rs \<Longrightarrow>
   decor_sim n ((decor_step (int n) ^^ k) st) ((ref_decor_step n ^^ k) rs)"
  by (induction k) (simp_all add: decor_step_sim)

lemma array_passes_holds:
  assumes "holds n v xs" and "length xs = n" and "2 \<le> n" and "init_key \<noteq> []"
  shows "holds n (fst (array_passes (int n) (map uint init_key) v))
     (fst ((ref_decor_step n ^^ (n - 1))
        (fst ((ref_mix_step n init_key ^^ (if n > length init_key then n else length init_key)) (xs, 1, 0)),
         fst (snd ((ref_mix_step n init_key ^^ (if n > length init_key then n else length init_key)) (xs, 1, 0))))))
     \<and> length (fst ((ref_decor_step n ^^ (n - 1))
        (fst ((ref_mix_step n init_key ^^ (if n > length init_key then n else length init_key)) (xs, 1, 0)),
         fst (snd ((ref_mix_step n init_key ^^ (if n > length init_key then n else length init_key)) (xs, 1, 0)))))) = n"
proof -
  define k where "k = (if n > length init_key then n else length init_key)"
  have k: "nat (max (int n) (int (length (map uint init_key)))) = k"
    by (simp add: k_def max_def)
  have d: "nat (int n - 1) = n - 1"
    by simp
  define m where "m = (mix_step (int n) (map uint init_key) ^^ k) (v, 1, 0)"
  define m' where "m' = (ref_mix_step n init_key ^^ k) (xs, 1, 0)"
  from assms have "mix_sim n init_key (v, 1, 0) (xs, 1, 0)"
    by (simp add: mix_sim_def)
  then have "mix_sim n init_key m m'"
    unfolding m_def m'_def by (rule mix_funpow_sim)
  then have "decor_sim n (fst m, fst (snd m)) (fst m', fst (snd m'))"
    by (simp add: mix_sim_def decor_sim_def)
  then have "decor_sim n ((decor_step (int n) ^^ (n - 1)) (fst m, fst (snd m)))
                         ((ref_decor_step n ^^ (n - 1)) (fst m', fst (snd m')))"
    by (rule decor_funpow_sim)
  then show ?thesis
    unfolding array_passes_def k d k_def [symmetric] m'_def [symmetric]
    by (simp add: case_prod_beta m_def decor_sim_def)
qed

lemma ref_init_by_array_eq:
  "ref_init_by_array n init_key =
     (fst ((ref_decor_step n ^^ (n - 1))
        (fst ((ref_mix_step n init_key ^^ (if n > length init_key then n else length init_key))
                (ref_init_genrand n 19650218, 1, 0)),
         fst (snd ((ref_mix_step n init_key ^^ (if n > length init_key then n else length init_key))
                (ref_init_genrand n 19650218, 1, 0))))))
     [0 := 0x80000000]"
  by (simp add: ref_init_by_array_def Let_def case_prod_beta)

text \<open>The reference seeding of three words with the key 7, 9, evaluated.\<close>

lemma small_reference_words:
  "ref_init_by_array 3 [7, 9] = [2147483648, 421242048, 1102637655]"
  by code_simp

text \<open>
  C1. Array seeding of a generator of at least two state words with a non-empty key
  of 32-bit unsigned values returns. Its result is the result of scalar seeding with
  19650218, with the state vector then taken through the first loop as many times as
  the larger of \<open>N\<close> and the key length, through the second loop \<open>N - 1\<close> times, and
  given \<^verbatim>\<open>0x80000000\<close> at index 0. Each of the \<open>N\<close> state words is the word the reference
  seeding by array has at that index; the word at index 0 is \<^verbatim>\<open>0x80000000\<close>, so not 0;
  and the state index is \<open>N\<close>.
\<close>

theorem initWithArray_reference:
  assumes "init_key \<noteq> []" and "2 \<le> mt_N g"
  shows "\<exists>g'. initWithArray g (map uint init_key) = Some g' \<and>
     g' = (initWithNumber g MAGIC_SEED)
            \<lparr>mt_stateVector :=
               (fst (array_passes (mt_N g) (map uint init_key)
                      (mt_stateVector (initWithNumber g MAGIC_SEED))))
                 (0 := Some 0x80000000)\<rparr> \<and>
     length (ref_init_by_array (nat (mt_N g)) init_key) = nat (mt_N g) \<and>
     (\<forall>i. 0 \<le> i \<and> i < mt_N g \<longrightarrow>
        mt_stateVector g' i = Some (ref_init_by_array (nat (mt_N g)) init_key ! nat i)) \<and>
     mt_stateVector g' 0 = Some 0x80000000 \<and> rd (mt_stateVector g') 0 \<noteq> 0 \<and>
     mt_stateIndex g' = mt_N g"
proof -
  define n where "n = nat (mt_N g)"
  from assms(2) have N: "mt_N g = int n" and n2: "2 \<le> n"
    by (simp_all add: n_def)
  define v0 where "v0 = mt_stateVector (initWithNumber g MAGIC_SEED)"
  define r0 where "r0 = ref_init_genrand n 19650218"
  define r where "r = fst ((ref_decor_step n ^^ (n - 1))
        (fst ((ref_mix_step n init_key ^^ (if n > length init_key then n else length init_key)) (r0, 1, 0)),
         fst (snd ((ref_mix_step n init_key ^^ (if n > length init_key then n else length init_key)) (r0, 1, 0)))))"
  define v where "v = fst (array_passes (int n) (map uint init_key) v0)"
  from n2 have "1 \<le> n" by simp
  from initWithNumber_holds [OF N this, of MAGIC_SEED] have h0: "holds n v0 r0"
    by (simp add: v0_def r0_def MAGIC_SEED_def)
  have len0: "length r0 = n"
    by (simp add: r0_def ref_init_genrand_length)
  from array_passes_holds [OF h0 len0 n2 assms(1)] have h: "holds n v r" and len: "length r = n"
    by (simp_all add: v_def r_def)
  from holds_upd [OF h, of 0 "0x80000000"] len
  have hf: "holds n (v(0 := Some 0x80000000)) (r[0 := 0x80000000])"
    by simp
  have ref: "ref_init_by_array n init_key = r[0 := 0x80000000]"
    unfolding ref_init_by_array_eq r_def r0_def ..
  from assms(2) have "1 \<le> mt_N g" by simp
  from initWithArray_eq [OF this, of "map uint init_key"]
  have eq: "initWithArray g (map uint init_key) =
      Some ((initWithNumber g MAGIC_SEED)\<lparr>mt_stateVector := v(0 := Some 0x80000000)\<rparr>)"
    by (simp add: v_def v0_def N)
  have words: "(v(0 := Some 0x80000000)) i = Some (ref_init_by_array n init_key ! nat i)"
    if "0 \<le> i \<and> i < mt_N g" for i
  proof -
    from that N have "nat i < n" by linarith
    with hf have "(v(0 := Some 0x80000000)) (int (nat i)) = Some (r[0 := 0x80000000] ! nat i)"
      unfolding holds_def by blast
    with that show ?thesis
      by (simp add: ref)
  qed
  have idx: "mt_stateIndex (initWithNumber g MAGIC_SEED) = mt_N g"
    using assms(2) by (simp add: initWithNumber_index)
  have len': "length (ref_init_by_array n init_key) = n"
    by (simp add: ref len)
  show ?thesis
    unfolding eq n_def [symmetric]
    using words idx len'
    by (simp add: rd_def v_def v0_def N)
qed

theorem initWithArray_reference_witness:
  "\<exists>g'. initWithArray small_generator (map uint [7, 9 :: u32]) = Some g' \<and>
     mt_stateVector g' 0 = Some 2147483648 \<and>
     mt_stateVector g' 1 = Some 421242048 \<and>
     mt_stateVector g' 2 = Some 1102637655 \<and>
     mt_stateIndex g' = 3"
proof -
  have n: "mt_N small_generator = 3"
    by (simp add: small_generator_def)
  have "[7, 9 :: u32] \<noteq> []" and "2 \<le> mt_N small_generator"
    by (simp_all add: n)
  from initWithArray_reference [OF this]
  obtain g' where g': "initWithArray small_generator (map uint [7, 9 :: u32]) = Some g'"
    and all: "\<forall>i. 0 \<le> i \<and> i < mt_N small_generator \<longrightarrow>
        mt_stateVector g' i = Some (ref_init_by_array (nat (mt_N small_generator)) [7, 9] ! nat i)"
    and idx: "mt_stateIndex g' = mt_N small_generator"
    by blast
  from all have words: "0 \<le> i \<and> i < 3 \<longrightarrow>
      mt_stateVector g' i = Some ([2147483648, 421242048, 1102637655] ! nat i)" for i
    by (simp add: n small_reference_words)
  from words [of 0] have "mt_stateVector g' 0 = Some 2147483648"
    by simp
  moreover from words [of 1] have "mt_stateVector g' 1 = Some 421242048"
    by simp
  moreover from words [of 2] have "mt_stateVector g' 2 = Some 1102637655"
    by simp
  ultimately show ?thesis
    using g' idx n by simp
qed

end
